theory Spec2Isabelle
  imports Complex_Main "HOL-Library.Word" "HOL-Library.Stream"
begin

section \<open>JavaScript values and errors\<close>

text \<open>
  Bytes are 8-bit words. Strings are lists of 8-bit characters (the ASCII range of the
  source's strings). A JavaScript \<open>number\<close> that the code uses as an integer (market
  index, nonce, order id, leverage multiplier, decimals count) is an \<open>int\<close> or a
  \<open>nat\<close>; a \<open>bigint\<close> is an \<open>int\<close>. A value of type \<open>string | number\<close> is a
  \<open>strnum\<close>. An optional property is an \<open>option\<close>, \<open>None\<close> standing for
  \<open>undefined\<close> (and \<open>null\<close>).
\<close>

type_synonym byte = "8 word"

datatype strnum = Str string | Num int

text \<open>
  Every \<open>throw\<close> of the source is a value of this type. The source throws plain
  \<open>Error\<close> objects that differ in their message; the constructors name the messages.
  \<open>SyntaxError\<close> and \<open>TypeError\<close> are the exceptions of \<open>BigInt(...)\<close>,
  \<open>RangeError\<close> the one of an out-of-range buffer write.
\<close>

datatype error =
    UnknownMarket "strnum option"
  | UnsupportedTimeInForce string
  | CancelByCloidRequiresFields
  | InvalidFaucetRequest error
  | SyntaxError string
  | TypeError
  | RangeError
  | FieldOverflow
  | MalformedEnvelope

subsection \<open>\<open>BigInt(string)\<close>\<close>

text \<open>
  \<open>BigInt(s)\<close> on a string: white space is trimmed; the empty string is \<open>0n\<close>; a
  prefix \<open>0x\<close>, \<open>0o\<close> or \<open>0b\<close> (either case) selects the radix and takes no sign;
  otherwise an optional sign and a non-empty run of decimal digits. Anything else
  throws a SyntaxError.
\<close>

definition is_ws :: "char \<Rightarrow> bool" where
  "is_ws c = (c \<in> {CHR 0x09, CHR 0x0A, CHR 0x0B, CHR 0x0C, CHR 0x0D, CHR '' ''})"

definition trim :: "string \<Rightarrow> string" where
  "trim s = rev (dropWhile is_ws (rev (dropWhile is_ws s)))"

definition digit_of :: "char \<Rightarrow> nat option" where
  "digit_of c =
     (let n = (of_char c :: nat) in
      if 48 \<le> n \<and> n \<le> 57 then Some (n - 48)
      else if 97 \<le> n \<and> n \<le> 102 then Some (n - 87)
      else if 65 \<le> n \<and> n \<le> 70 then Some (n - 55)
      else None)"

fun parse_radix :: "nat \<Rightarrow> nat \<Rightarrow> string \<Rightarrow> nat option" where
  "parse_radix r acc [] = Some acc"
| "parse_radix r acc (c # cs) =
     (case digit_of c of
        None \<Rightarrow> None
      | Some d \<Rightarrow> if d < r then parse_radix r (r * acc + d) cs else None)"

definition parse_digits :: "nat \<Rightarrow> string \<Rightarrow> int option" where
  "parse_digits r s = (if s = [] then None else map_option int (parse_radix r 0 s))"

definition BigInt_str :: "string \<Rightarrow> int option" where
  "BigInt_str s =
     (let t = trim s in
      if t = [] then Some 0
      else if take 2 t = ''0x'' \<or> take 2 t = ''0X'' then parse_digits 16 (drop 2 t)
      else if take 2 t = ''0o'' \<or> take 2 t = ''0O'' then parse_digits 8 (drop 2 t)
      else if take 2 t = ''0b'' \<or> take 2 t = ''0B'' then parse_digits 2 (drop 2 t)
      else if hd t = CHR ''+'' then parse_digits 10 (tl t)
      else if hd t = CHR ''-'' then map_option uminus (parse_digits 10 (tl t))
      else parse_digits 10 t)"

text \<open>\<open>BigInt(v)\<close> for \<open>v\<close> a string or an integral number.\<close>

definition BigInt :: "strnum \<Rightarrow> error + int" where
  "BigInt v =
     (case v of
        Num n \<Rightarrow> Inr n
      | Str s \<Rightarrow> (case BigInt_str s of None \<Rightarrow> Inl (SyntaxError s) | Some n \<Rightarrow> Inr n))"

text \<open>
  \<open>n.toString()\<close> for an integer \<open>n\<close>: its decimal digits. \<open>String(v)\<close> is
  \<open>v\<close> itself on a string and the decimal digits of a number below \<open>10^21\<close> in
  magnitude; from \<open>10^21\<close> on, a number is printed in exponent notation from the
  digits of its double, which is a parameter \<open>exponential\<close> of the model.
\<close>

fun digits_of :: "nat \<Rightarrow> string" where
  "digits_of n =
     (if n < 10 then [''0123456789'' ! n]
      else digits_of (n div 10) @ [''0123456789'' ! (n mod 10)])"

definition toString :: "int \<Rightarrow> string" where
  "toString n = (if n < 0 then CHR ''-'' # digits_of (nat (- n)) else digits_of (nat n))"

definition String :: "(int \<Rightarrow> string) \<Rightarrow> strnum \<Rightarrow> string" where
  "String exponential v =
     (case v of
        Str s \<Rightarrow> s
      | Num n \<Rightarrow> if \<bar>n\<bar> < 10 ^ 21 then toString n else exponential n)"

text \<open>\<open>Buffer.from(s).toString("hex")\<close>: two lower-case hex digits for each byte.\<close>

definition hex_of_string :: "string \<Rightarrow> string" where
  "hex_of_string s =
     concat (map (\<lambda>c. [''0123456789abcdef'' ! (of_char c div 16),
                        ''0123456789abcdef'' ! (of_char c mod 16)]) s)"

section \<open>The permit types and their encoding: \<open>types.ts\<close>\<close>

subsection \<open>Data model\<close>

text \<open>
  A \<open>PublicKey\<close> is its byte array (32 bytes for every key the library constructs).
  The enums carry the discriminants the source assigns them.
\<close>

type_synonym PublicKey = "byte list"

datatype KeyType = Ed25519 | Secp256k1

datatype ClusterType = Mainnet | Testnet | Devnet | Localnet

datatype HealthMetric = Initial | Maintenance | RatioBps

fun KeyType_code :: "KeyType \<Rightarrow> int" where
  "KeyType_code Ed25519 = 0"
| "KeyType_code Secp256k1 = 1"

fun ClusterType_code :: "ClusterType \<Rightarrow> int" where
  "ClusterType_code Mainnet = 0"
| "ClusterType_code Testnet = 1"
| "ClusterType_code Devnet = 2"
| "ClusterType_code Localnet = 3"

fun HealthMetric_code :: "HealthMetric \<Rightarrow> int" where
  "HealthMetric_code Initial = 0"
| "HealthMetric_code Maintenance = 1"
| "HealthMetric_code RatioBps = 2"

record PermitDomain =
  programId :: PublicKey
  version :: int
  cluster :: ClusterType

record HealthFloor =
  hf_metric :: HealthMetric
  hf_min :: int

text \<open>
  The tagged unions, their constructor arguments in the order of the source's fields:
  \<open>Sequence expected\<close>, \<open>Nonce salt\<close>, \<open>Allowance id\<close>, \<open>HlWindow k\<close>;
  \<open>GTT timestamp\<close>;
  \<open>Place marketId clientId side qty price tif reduceOnly triggerPrice triggerType healthFloor\<close>,
  \<open>CancelById marketId orderId\<close>, \<open>CancelByClientId marketId clientId\<close>,
  \<open>CancelAll marketId\<close>,
  \<open>Modify marketId cancelOrderId newClientId side qty price tif reduceOnly triggerPrice
  triggerType healthFloor\<close>, \<open>Withdraw amount toOwner healthFloor\<close>,
  \<open>SetLeverage marketId targetLeverageBps healthFloor\<close>, \<open>Noop\<close>,
  \<open>Faucet marketId amount recipient\<close>. A nullable or optional field is an \<open>option\<close>.
\<close>

datatype ReplayMode =
    Sequence int
  | Nonce "byte list"
  | Allowance "byte list"
  | HlWindow int

datatype TimeInForceValue = IOC | FOK | GTC | ALO | GTT int

datatype PermitAction =
    Place int int int int "int option" TimeInForceValue bool "int option" int
      "HealthFloor option"
  | CancelById int int
  | CancelByClientId int int
  | CancelAll "int option"
  | Modify int int int int int "int option" TimeInForceValue bool "int option" int
      "HealthFloor option"
  | Withdraw int PublicKey "HealthFloor option"
  | SetLeverage int int "HealthFloor option"
  | Noop
  | Faucet int int PublicKey

record PermitEnvelopeV1 =
  domain :: PermitDomain
  authorizer :: PublicKey
  keyType :: KeyType
  action :: PermitAction
  mode :: ReplayMode
  expiresUnix :: int
  maxFeeQuote :: int
  relayer :: "PublicKey option"
  nonce :: int

subsection \<open>Borsh layouts and the values they encode\<close>

text \<open>
  The schemas of the source are data: a layout built from the constructors of
  \<open>@coral-xyz/borsh\<close>, each field paired with its property name. The objects handed to
  a layout are JavaScript values: \<open>null\<close>, a number, a \<open>BN\<close>, a boolean, a byte array
  (a \<open>PublicKey\<close> or a \<open>Uint8Array\<close>) or an object, which is the list of its
  properties in the order they are written.
\<close>

datatype layout =
    U8 | U16 | U64 | U128 | I64 | BoolL | PublicKeyL
  | ArrayU8 nat
  | OptionL layout
  | Struct "(string \<times> layout) list"
  | RustEnum "(string \<times> layout) list"

datatype bval =
    VNull
  | VNum int
  | VBN int
  | VBool bool
  | VBytes "byte list"
  | VObj "(string \<times> bval) list"

text \<open>The little-endian bytes of a natural number, and the number of a byte string.\<close>

fun le_bytes :: "nat \<Rightarrow> nat \<Rightarrow> byte list" where
  "le_bytes 0 n = []"
| "le_bytes (Suc w) n = word_of_nat (n mod 256) # le_bytes w (n div 256)"

fun le_val :: "byte list \<Rightarrow> nat" where
  "le_val [] = 0"
| "le_val (b # bs) = unat b + 256 * le_val bs"

text \<open>
  Modelled from the spec: the encoding functions of the borsh layout library, which is
  not part of the repository. Section 4.1: a concatenation of fixed-width little-endian
  fields, a single-byte discriminant before the payload of each tagged union, no padding
  and no length prefix, an option as a one-byte presence flag followed by the value only
  if present, a boolean as one byte 0 or 1, and a failure when a numeric field exceeds
  its declared width. A struct reads each property of its schema by name, in schema
  order; a tagged union is an object with the variant's name as its only property.
\<close>

definition encode_uint :: "nat \<Rightarrow> int \<Rightarrow> error + byte list" where
  "encode_uint w n =
     (if 0 \<le> n \<and> n < 256 ^ w then Inr (le_bytes w (nat n)) else Inl FieldOverflow)"

definition encode_sint :: "nat \<Rightarrow> int \<Rightarrow> error + byte list" where
  "encode_sint w n =
     (if - (256 ^ w div 2) \<le> n \<and> n < 256 ^ w div 2
      then Inr (le_bytes w (nat (n mod 256 ^ w))) else Inl FieldOverflow)"

definition append_result :: "error + byte list \<Rightarrow> error + byte list \<Rightarrow> error + byte list" where
  "append_result a b =
     (case a of Inl e \<Rightarrow> Inl e
      | Inr xs \<Rightarrow> (case b of Inl e \<Rightarrow> Inl e | Inr ys \<Rightarrow> Inr (xs @ ys)))"

fun encode :: "layout \<Rightarrow> bval \<Rightarrow> error + byte list"
  and encode_fields :: "(string \<times> layout) list \<Rightarrow> (string \<times> bval) list \<Rightarrow> error + byte list"
  and encode_variant :: "(string \<times> layout) list \<Rightarrow> nat \<Rightarrow> string \<Rightarrow> bval \<Rightarrow> error + byte list"
where
  "encode U8 v = (case v of VNum n \<Rightarrow> encode_uint 1 n | _ \<Rightarrow> Inl TypeError)"
| "encode U16 v = (case v of VNum n \<Rightarrow> encode_uint 2 n | _ \<Rightarrow> Inl TypeError)"
| "encode U64 v = (case v of VBN n \<Rightarrow> encode_uint 8 n | _ \<Rightarrow> Inl TypeError)"
| "encode U128 v = (case v of VBN n \<Rightarrow> encode_uint 16 n | _ \<Rightarrow> Inl TypeError)"
| "encode I64 v = (case v of VBN n \<Rightarrow> encode_sint 8 n | _ \<Rightarrow> Inl TypeError)"
| "encode BoolL v = (case v of VBool b \<Rightarrow> Inr [if b then 1 else 0] | _ \<Rightarrow> Inl TypeError)"
| "encode PublicKeyL v =
     (case v of VBytes bs \<Rightarrow> if length bs = 32 then Inr bs else Inl FieldOverflow
      | _ \<Rightarrow> Inl TypeError)"
| "encode (ArrayU8 n) v =
     (case v of VBytes bs \<Rightarrow> if length bs = n then Inr bs else Inl FieldOverflow
      | _ \<Rightarrow> Inl TypeError)"
| "encode (OptionL l) v =
     (case v of VNull \<Rightarrow> Inr [0] | _ \<Rightarrow> append_result (Inr [1]) (encode l v))"
| "encode (Struct fs) v = (case v of VObj kvs \<Rightarrow> encode_fields fs kvs | _ \<Rightarrow> Inl TypeError)"
| "encode (RustEnum vs) v =
     (case v of VObj [(name, payload)] \<Rightarrow> encode_variant vs 0 name payload
      | _ \<Rightarrow> Inl TypeError)"
| "encode_fields [] kvs = Inr []"
| "encode_fields (f # fs) kvs =
     (case map_of kvs (fst f) of
        None \<Rightarrow> Inl TypeError
      | Some v \<Rightarrow> append_result (encode (snd f) v) (encode_fields fs kvs))"
| "encode_variant [] i name payload = Inl TypeError"
| "encode_variant (f # vs) i name payload =
     (if fst f = name then append_result (Inr [word_of_nat i]) (encode (snd f) payload)
      else encode_variant vs (Suc i) name payload)"

subsection \<open>The schemas\<close>

definition permitDomainSchema :: layout where
  "permitDomainSchema =
     Struct [(''programId'', PublicKeyL), (''cluster'', U8), (''version'', U8)]"

definition healthFloorSchema :: layout where
  "healthFloorSchema = Struct [(''metric'', U8), (''min'', I64)]"

definition tifSchema :: layout where
  "tifSchema =
     RustEnum [(''IOC'', Struct []), (''FOK'', Struct []), (''GTC'', Struct []),
               (''ALO'', Struct []), (''GTT'', Struct [(''timestamp'', U64)])]"

definition replayModeSchema :: layout where
  "replayModeSchema =
     RustEnum [(''Sequence'', Struct [(''expected'', U64)]),
               (''Nonce'', Struct [(''salt'', ArrayU8 32)]),
               (''Allowance'', Struct [(''id'', ArrayU8 32)]),
               (''HlWindow'', Struct [(''k'', U8)])]"

definition permitActionSchema :: layout where
  "permitActionSchema =
     RustEnum [
       (''Place'', Struct [
          (''marketId'', U64),
          (''clientId'', U128),
          (''side'', U8),
          (''qty'', U64),
          (''price'', OptionL U64),
          (''tif'', tifSchema),
          (''reduceOnly'', BoolL),
          (''triggerPrice'', OptionL U64),
          (''triggerType'', U8),
          (''healthFloor'', OptionL healthFloorSchema)]),
       (''CancelById'', Struct [(''marketId'', U64), (''orderId'', U64)]),
       (''CancelByClientId'', Struct [(''marketId'', U64), (''clientId'', U128)]),
       (''CancelAll'', Struct [(''marketId'', OptionL U64)]),
       (''Modify'', Struct [
          (''marketId'', U64),
          (''cancelOrderId'', U64),
          (''newClientId'', U128),
          (''side'', U8),
          (''qty'', U64),
          (''price'', OptionL U64),
          (''tif'', tifSchema),
          (''reduceOnly'', BoolL),
          (''triggerPrice'', OptionL U64),
          (''triggerType'', U8),
          (''healthFloor'', OptionL healthFloorSchema)]),
       (''Withdraw'', Struct [
          (''amount'', U64),
          (''toOwner'', PublicKeyL),
          (''healthFloor'', OptionL healthFloorSchema)]),
       (''SetLeverage'', Struct [
          (''marketId'', U64),
          (''targetLeverageBps'', U16),
          (''healthFloor'', OptionL healthFloorSchema)]),
       (''Noop'', Struct []),
       (''Faucet'', Struct [(''marketId'', U64), (''amount'', U64), (''recipient'', PublicKeyL)])]"

definition permitEnvelopeSchema :: layout where
  "permitEnvelopeSchema =
     Struct [
       (''domain'', permitDomainSchema),
       (''authorizer'', PublicKeyL),
       (''keyType'', U8),
       (''action'', permitActionSchema),
       (''mode'', replayModeSchema),
       (''expiresUnix'', I64),
       (''maxFeeQuote'', U64),
       (''relayer'', OptionL PublicKeyL),
       (''nonce'', U64)]"

subsection \<open>From the permit types to borsh objects\<close>

definition toBN :: "int \<Rightarrow> bval" where
  "toBN n = VBN n"

definition toBorshHealthFloor :: "HealthFloor option \<Rightarrow> bval" where
  "toBorshHealthFloor healthFloor' =
     (case healthFloor' of
        None \<Rightarrow> VNull
      | Some fl \<Rightarrow> VObj [(''metric'', VNum (HealthMetric_code (hf_metric fl))),
                          (''min'', toBN (hf_min fl))])"

definition toBorshTif :: "TimeInForceValue \<Rightarrow> bval" where
  "toBorshTif t =
     (case t of
        IOC \<Rightarrow> VObj [(''IOC'', VObj [])]
      | FOK \<Rightarrow> VObj [(''FOK'', VObj [])]
      | GTC \<Rightarrow> VObj [(''GTC'', VObj [])]
      | ALO \<Rightarrow> VObj [(''ALO'', VObj [])]
      | GTT ts \<Rightarrow> VObj [(''GTT'', VObj [(''timestamp'', toBN ts)])])"

definition toBorshOptionBN :: "int option \<Rightarrow> bval" where
  "toBorshOptionBN v = (case v of None \<Rightarrow> VNull | Some n \<Rightarrow> toBN n)"

fun toBorshAction :: "PermitAction \<Rightarrow> bval" where
  "toBorshAction (Place marketId' clientId' side' qty' price' tif' reduceOnly' triggerPrice'
       triggerType' healthFloor') =
     VObj [(''Place'', VObj [
       (''marketId'', toBN marketId'),
       (''clientId'', toBN clientId'),
       (''side'', VNum side'),
       (''qty'', toBN qty'),
       (''price'', toBorshOptionBN price'),
       (''tif'', toBorshTif tif'),
       (''reduceOnly'', VBool reduceOnly'),
       (''triggerPrice'', toBorshOptionBN triggerPrice'),
       (''triggerType'', VNum triggerType'),
       (''healthFloor'', toBorshHealthFloor healthFloor')])]"
| "toBorshAction (CancelById marketId' orderId') =
     VObj [(''CancelById'', VObj [(''marketId'', toBN marketId'), (''orderId'', toBN orderId')])]"
| "toBorshAction (CancelByClientId marketId' clientId') =
     VObj [(''CancelByClientId'',
       VObj [(''marketId'', toBN marketId'), (''clientId'', toBN clientId')])]"
| "toBorshAction (CancelAll marketId') =
     VObj [(''CancelAll'', VObj [(''marketId'', toBorshOptionBN marketId')])]"
| "toBorshAction (Modify marketId' cancelOrderId' newClientId' side' qty' price' tif'
       reduceOnly' triggerPrice' triggerType' healthFloor') =
     VObj [(''Modify'', VObj [
       (''marketId'', toBN marketId'),
       (''cancelOrderId'', toBN cancelOrderId'),
       (''newClientId'', toBN newClientId'),
       (''side'', VNum side'),
       (''qty'', toBN qty'),
       (''price'', toBorshOptionBN price'),
       (''tif'', toBorshTif tif'),
       (''reduceOnly'', VBool reduceOnly'),
       (''triggerPrice'', toBorshOptionBN triggerPrice'),
       (''triggerType'', VNum triggerType'),
       (''healthFloor'', toBorshHealthFloor healthFloor')])]"
| "toBorshAction (Withdraw amount' toOwner' healthFloor') =
     VObj [(''Withdraw'', VObj [
       (''amount'', toBN amount'),
       (''toOwner'', VBytes toOwner'),
       (''healthFloor'', toBorshHealthFloor healthFloor')])]"
| "toBorshAction (Faucet marketId' amount' recipient') =
     VObj [(''Faucet'', VObj [
       (''marketId'', toBN marketId'),
       (''amount'', toBN amount'),
       (''recipient'', VBytes recipient')])]"
| "toBorshAction (SetLeverage marketId' targetLeverageBps' healthFloor') =
     VObj [(''SetLeverage'', VObj [
       (''marketId'', toBN marketId'),
       (''targetLeverageBps'', VNum targetLeverageBps'),
       (''healthFloor'', toBorshHealthFloor healthFloor')])]"
| "toBorshAction Noop = VObj [(''Noop'', VObj [])]"

definition toBorshReplayMode :: "ReplayMode \<Rightarrow> bval" where
  "toBorshReplayMode m =
     (case m of
        Sequence e \<Rightarrow> VObj [(''Sequence'', VObj [(''expected'', toBN e)])]
      | Nonce s \<Rightarrow> VObj [(''Nonce'', VObj [(''salt'', VBytes s)])]
      | Allowance i \<Rightarrow> VObj [(''Allowance'', VObj [(''id'', VBytes i)])]
      | HlWindow w \<Rightarrow> VObj [(''HlWindow'', VObj [(''k'', VNum w)])])"

text \<open>
  \<open>encodePermitEnvelope\<close>: the serializable object, encoded into a buffer of 512 bytes
  (a write past its end throws a RangeError) and cut to the encoded length.
\<close>

definition serializable :: "PermitEnvelopeV1 \<Rightarrow> bval" where
  "serializable envelope =
     VObj [
       (''domain'', VObj [
          (''programId'', VBytes (programId (domain envelope))),
          (''cluster'', VNum (ClusterType_code (cluster (domain envelope)))),
          (''version'', VNum (version (domain envelope)))]),
       (''authorizer'', VBytes (authorizer envelope)),
       (''keyType'', VNum (KeyType_code (keyType envelope))),
       (''action'', toBorshAction (action envelope)),
       (''mode'', toBorshReplayMode (mode envelope)),
       (''expiresUnix'', toBN (expiresUnix envelope)),
       (''maxFeeQuote'', toBN (maxFeeQuote envelope)),
       (''relayer'', (case relayer envelope of None \<Rightarrow> VNull | Some r \<Rightarrow> VBytes r)),
       (''nonce'', toBN (nonce envelope))]"

definition encodePermitEnvelope :: "PermitEnvelopeV1 \<Rightarrow> error + byte list" where
  "encodePermitEnvelope envelope =
     (case encode permitEnvelopeSchema (serializable envelope) of
        Inl e \<Rightarrow> Inl e
      | Inr bytes \<Rightarrow> if length bytes \<le> 512 then Inr bytes else Inl RangeError)"

subsection \<open>Decoding\<close>

text \<open>
  Modelled from the spec: \<open>decode(bytes) -> envelope | DecodeError\<close> of section 4.1,
  which the repository does not define (it only encodes). Decoding is the inverse of the
  encoding rules, reading the fields in the order of the schemas above, and fails with
  \<open>MalformedEnvelope\<close> on truncated input, on an unknown discriminant and on an
  option or boolean byte outside 0 and 1. Bytes after the envelope are ignored.
\<close>

type_synonym 'a parser = "byte list \<Rightarrow> error + ('a \<times> byte list)"

definition preturn :: "'a \<Rightarrow> 'a parser" where
  "preturn x bs = Inr (x, bs)"

definition pfail :: "'a parser" where
  "pfail bs = Inl MalformedEnvelope"

definition pbind :: "'a parser \<Rightarrow> ('a \<Rightarrow> 'b parser) \<Rightarrow> 'b parser" where
  "pbind p f bs = (case p bs of Inl e \<Rightarrow> Inl e | Inr (x, rest) \<Rightarrow> f x rest)"

definition take_bytes :: "nat \<Rightarrow> (byte list) parser" where
  "take_bytes n bs = (if length bs < n then Inl MalformedEnvelope else Inr (take n bs, drop n bs))"

definition decode_uint :: "nat \<Rightarrow> int parser" where
  "decode_uint w = pbind (take_bytes w) (\<lambda>bs. preturn (int (le_val bs)))"

definition decode_sint :: "nat \<Rightarrow> int parser" where
  "decode_sint w =
     pbind (take_bytes w)
       (\<lambda>bs. preturn (if 256 ^ w div 2 \<le> int (le_val bs)
                       then int (le_val bs) - 256 ^ w else int (le_val bs)))"

definition decode_bool :: "bool parser" where
  "decode_bool =
     pbind (decode_uint 1) (\<lambda>n. if n = 0 then preturn False else if n = 1 then preturn True else pfail)"

definition decode_option :: "'a parser \<Rightarrow> ('a option) parser" where
  "decode_option p =
     pbind (decode_uint 1)
       (\<lambda>n. if n = 0 then preturn None
             else if n = 1 then pbind p (\<lambda>x. preturn (Some x))
             else pfail)"

definition decode_KeyType :: "KeyType parser" where
  "decode_KeyType =
     pbind (decode_uint 1)
       (\<lambda>n. if n = 0 then preturn Ed25519 else if n = 1 then preturn Secp256k1 else pfail)"

definition decode_ClusterType :: "ClusterType parser" where
  "decode_ClusterType =
     pbind (decode_uint 1)
       (\<lambda>n. if n = 0 then preturn Mainnet else if n = 1 then preturn Testnet
             else if n = 2 then preturn Devnet else if n = 3 then preturn Localnet else pfail)"

definition decode_HealthMetric :: "HealthMetric parser" where
  "decode_HealthMetric =
     pbind (decode_uint 1)
       (\<lambda>n. if n = 0 then preturn Initial else if n = 1 then preturn Maintenance
             else if n = 2 then preturn RatioBps else pfail)"

definition decode_domain :: "PermitDomain parser" where
  "decode_domain =
     pbind (take_bytes 32) (\<lambda>p.
     pbind decode_ClusterType (\<lambda>c.
     pbind (decode_uint 1) (\<lambda>v.
     preturn \<lparr>programId = p, version = v, cluster = c\<rparr>)))"

definition decode_healthFloor :: "HealthFloor parser" where
  "decode_healthFloor =
     pbind decode_HealthMetric (\<lambda>m.
     pbind (decode_sint 8) (\<lambda>n.
     preturn \<lparr>hf_metric = m, hf_min = n\<rparr>))"

definition decode_tif :: "TimeInForceValue parser" where
  "decode_tif =
     pbind (decode_uint 1)
       (\<lambda>d. if d = 0 then preturn IOC else if d = 1 then preturn FOK
             else if d = 2 then preturn GTC else if d = 3 then preturn ALO
             else if d = 4 then pbind (decode_uint 8) (\<lambda>t. preturn (GTT t))
             else pfail)"

definition decode_mode :: "ReplayMode parser" where
  "decode_mode =
     pbind (decode_uint 1)
       (\<lambda>d. if d = 0 then pbind (decode_uint 8) (\<lambda>e. preturn (Sequence e))
             else if d = 1 then pbind (take_bytes 32) (\<lambda>s. preturn (Nonce s))
             else if d = 2 then pbind (take_bytes 32) (\<lambda>i. preturn (Allowance i))
             else if d = 3 then pbind (decode_uint 1) (\<lambda>w. preturn (HlWindow w))
             else pfail)"

definition decode_order_tail ::
  "(int option \<Rightarrow> TimeInForceValue \<Rightarrow> bool \<Rightarrow> int option \<Rightarrow> int \<Rightarrow> HealthFloor option \<Rightarrow> PermitAction)
   \<Rightarrow> PermitAction parser" where
  "decode_order_tail mk =
     pbind (decode_option (decode_uint 8)) (\<lambda>p.
     pbind decode_tif (\<lambda>t.
     pbind decode_bool (\<lambda>r.
     pbind (decode_option (decode_uint 8)) (\<lambda>tp.
     pbind (decode_uint 1) (\<lambda>tt.
     pbind (decode_option decode_healthFloor) (\<lambda>hf.
     preturn (mk p t r tp tt hf)))))))"

definition decode_action :: "PermitAction parser" where
  "decode_action =
     pbind (decode_uint 1)
       (\<lambda>d.
          if d = 0 then
            pbind (decode_uint 8) (\<lambda>m.
            pbind (decode_uint 16) (\<lambda>c.
            pbind (decode_uint 1) (\<lambda>s.
            pbind (decode_uint 8) (\<lambda>q.
            decode_order_tail (Place m c s q)))))
          else if d = 1 then
            pbind (decode_uint 8) (\<lambda>m.
            pbind (decode_uint 8) (\<lambda>oid. preturn (CancelById m oid)))
          else if d = 2 then
            pbind (decode_uint 8) (\<lambda>m.
            pbind (decode_uint 16) (\<lambda>c. preturn (CancelByClientId m c)))
          else if d = 3 then
            pbind (decode_option (decode_uint 8)) (\<lambda>m. preturn (CancelAll m))
          else if d = 4 then
            pbind (decode_uint 8) (\<lambda>m.
            pbind (decode_uint 8) (\<lambda>oid.
            pbind (decode_uint 16) (\<lambda>c.
            pbind (decode_uint 1) (\<lambda>s.
            pbind (decode_uint 8) (\<lambda>q.
            decode_order_tail (Modify m oid c s q))))))
          else if d = 5 then
            pbind (decode_uint 8) (\<lambda>a.
            pbind (take_bytes 32) (\<lambda>owner.
            pbind (decode_option decode_healthFloor) (\<lambda>hf. preturn (Withdraw a owner hf))))
          else if d = 6 then
            pbind (decode_uint 8) (\<lambda>m.
            pbind (decode_uint 2) (\<lambda>bps.
            pbind (decode_option decode_healthFloor) (\<lambda>hf. preturn (SetLeverage m bps hf))))
          else if d = 7 then preturn Noop
          else if d = 8 then
            pbind (decode_uint 8) (\<lambda>m.
            pbind (decode_uint 8) (\<lambda>a.
            pbind (take_bytes 32) (\<lambda>r. preturn (Faucet m a r))))
          else pfail)"

definition decode_envelope :: "PermitEnvelopeV1 parser" where
  "decode_envelope =
     pbind decode_domain (\<lambda>d.
     pbind (take_bytes 32) (\<lambda>a.
     pbind decode_KeyType (\<lambda>kt.
     pbind decode_action (\<lambda>act.
     pbind decode_mode (\<lambda>m.
     pbind (decode_sint 8) (\<lambda>ex.
     pbind (decode_uint 8) (\<lambda>fee.
     pbind (decode_option (take_bytes 32)) (\<lambda>rl.
     pbind (decode_uint 8) (\<lambda>n.
     preturn \<lparr>domain = d, authorizer = a, keyType = kt, action = act, mode = m,
              expiresUnix = ex, maxFeeQuote = fee, relayer = rl, nonce = n\<rparr>)))))))))"

definition decodePermitEnvelope :: "byte list \<Rightarrow> error + PermitEnvelopeV1" where
  "decodePermitEnvelope bytes =
     (case decode_envelope bytes of Inl e \<Rightarrow> Inl e | Inr (envelope, rest) \<Rightarrow> Inr envelope)"

section \<open>The signer: \<open>signer.ts\<close>\<close>

text \<open>
  \<open>nacl.sign.detached\<close> is a parameter \<open>ed_sign message secretKey\<close> of every function
  that signs. \<open>Ed25519Program.programId\<close> is a constant of the library.
\<close>

record Keypair =
  kp_publicKey :: PublicKey
  kp_secretKey :: "byte list"

datatype ProgramId = Ed25519Program_programId | ProgramKey PublicKey

record TransactionInstruction =
  ix_keys :: "PublicKey list"
  ix_programId :: ProgramId
  ix_data :: "byte list"

record SignedPermit =
  envelope :: PermitEnvelopeV1
  signature :: "byte list"
  publicKey :: PublicKey
  verifyInstruction :: TransactionInstruction

record PermitSignature =
  ps_message :: "byte list"
  ps_signature :: "byte list"
  ps_publicKey :: PublicKey

subsection \<open>Buffers\<close>

text \<open>
  A buffer is the list of its bytes. \<open>Buffer.alloc\<close> fills with zeros;
  \<open>writeUInt16LE\<close> throws a RangeError on a value outside 16 bits and on an offset
  past the end; \<open>set\<close> throws a RangeError when the source does not fit.
\<close>

definition Buffer_alloc :: "nat \<Rightarrow> byte list" where
  "Buffer_alloc n = replicate n 0"

definition buf_write :: "byte list \<Rightarrow> nat \<Rightarrow> byte list \<Rightarrow> byte list" where
  "buf_write buf off src = take off buf @ src @ drop (off + length src) buf"

definition writeUInt16LE :: "int \<Rightarrow> nat \<Rightarrow> byte list \<Rightarrow> error + byte list" where
  "writeUInt16LE v off buf =
     (if v < 0 \<or> 65535 < v \<or> length buf < off + 2 then Inl RangeError
      else Inr (buf_write buf off (le_bytes 2 (nat v))))"

definition buf_set :: "byte list \<Rightarrow> nat \<Rightarrow> byte list \<Rightarrow> error + byte list" where
  "buf_set src off buf =
     (if length buf < off + length src then Inl RangeError else Inr (buf_write buf off src))"

definition bind_result :: "error + 'a \<Rightarrow> ('a \<Rightarrow> error + 'b) \<Rightarrow> error + 'b" where
  "bind_result r f = (case r of Inl e \<Rightarrow> Inl e | Inr x \<Rightarrow> f x)"

subsection \<open>\<open>PermitSigner\<close>\<close>

definition createEd25519Instruction ::
  "byte list \<Rightarrow> PublicKey \<Rightarrow> byte list \<Rightarrow> error + TransactionInstruction" where
  "createEd25519Instruction signature' publicKey' message =
     (let SIGNATURE_OFFSET = 16;
          PUBKEY_OFFSET = SIGNATURE_OFFSET + 64;
          MESSAGE_OFFSET = PUBKEY_OFFSET + 32;
          instructionData = Buffer_alloc (16 + 64 + 32 + length message)
      in bind_result (Inr (instructionData[0 := 1])) (\<lambda>b.
         bind_result (writeUInt16LE (int SIGNATURE_OFFSET) 1 b) (\<lambda>b.
         bind_result (writeUInt16LE 0 3 b) (\<lambda>b.
         bind_result (writeUInt16LE (int PUBKEY_OFFSET) 5 b) (\<lambda>b.
         bind_result (writeUInt16LE 0 7 b) (\<lambda>b.
         bind_result (writeUInt16LE (int MESSAGE_OFFSET) 9 b) (\<lambda>b.
         bind_result (writeUInt16LE (int (length message)) 11 b) (\<lambda>b.
         bind_result (writeUInt16LE 0 13 b) (\<lambda>b.
         bind_result (buf_set signature' SIGNATURE_OFFSET b) (\<lambda>b.
         bind_result (buf_set publicKey' PUBKEY_OFFSET b) (\<lambda>b.
         bind_result (buf_set message MESSAGE_OFFSET b) (\<lambda>b.
         Inr \<lparr>ix_keys = [], ix_programId = Ed25519Program_programId, ix_data = b\<rparr>))))))))))))"

definition generatePermitSignature ::
  "(byte list \<Rightarrow> byte list \<Rightarrow> byte list) \<Rightarrow> PermitEnvelopeV1 \<Rightarrow> Keypair
   \<Rightarrow> error + PermitSignature" where
  "generatePermitSignature ed_sign envelope' keypair =
     bind_result (encodePermitEnvelope envelope') (\<lambda>message.
       Inr \<lparr>ps_message = message,
            ps_signature = ed_sign message (kp_secretKey keypair),
            ps_publicKey = kp_publicKey keypair\<rparr>)"

definition sign ::
  "(byte list \<Rightarrow> byte list \<Rightarrow> byte list) \<Rightarrow> PermitEnvelopeV1 \<Rightarrow> Keypair
   \<Rightarrow> error + SignedPermit" where
  "sign ed_sign envelope' keypair =
     bind_result (generatePermitSignature ed_sign envelope' keypair) (\<lambda>ps.
     bind_result (createEd25519Instruction (ps_signature ps) (kp_publicKey keypair) (ps_message ps))
       (\<lambda>verifyInstruction'.
         Inr \<lparr>envelope = envelope',
              signature = ps_signature ps,
              publicKey = kp_publicKey keypair,
              verifyInstruction = verifyInstruction'\<rparr>))"

definition signWithSession ::
  "(byte list \<Rightarrow> byte list \<Rightarrow> byte list) \<Rightarrow> PermitEnvelopeV1 \<Rightarrow> Keypair
   \<Rightarrow> error + SignedPermit" where
  "signWithSession ed_sign envelope' sessionKeypair =
     (let sessionEnvelope = envelope'\<lparr>authorizer := kp_publicKey sessionKeypair\<rparr>
      in sign ed_sign sessionEnvelope sessionKeypair)"

section \<open>The exchange adapter: \<open>hyperliquid.ts\<close>\<close>

subsection \<open>Requests, markets and the context\<close>

text \<open>
  The request types, a record for each interface, the field names prefixed. In an order
  request \<open>or_a\<close> is optional, since the code tests it against \<open>undefined\<close>;
  \<open>or_tif\<close> is \<open>order.t?.limit?.tif\<close>, absent when any of the three is. The elements
  of \<open>cancels\<close> are the union of the two cancel interfaces, so each of their fields is
  optional. \<open>ea_self\<close> is the action object read as an order request, which is what
  \<open>action as unknown as HyperliquidOrderRequest\<close> does when \<open>action.order\<close> is
  absent; it is \<open>None\<close> for an action without a property \<open>a\<close>.
\<close>

record HyperliquidMarketConfig =
  mc_index :: int
  mc_symbol :: string
  mc_marketId :: int
  mc_baseDecimals :: nat
  mc_quoteDecimals :: nat

record HyperliquidPermitContext =
  cx_programId :: PublicKey
  cx_clusterType :: ClusterType
  cx_authorizer :: PublicKey
  cx_relayer :: "PublicKey option"
  cx_expirySeconds :: "int option"
  cx_hlWindowK :: "int option"
  cx_maxFeeQuote :: "int option"
  cx_bySymbol :: "string \<rightharpoonup> HyperliquidMarketConfig"
  cx_byIndex :: "int \<rightharpoonup> HyperliquidMarketConfig"

record HyperliquidOrderRequest =
  or_a :: "strnum option"
  or_b :: bool
  or_p :: string
  or_s :: string
  or_r :: bool
  or_tif :: "string option"
  or_c :: "string option"

record HyperliquidCancelRequest =
  cn_a :: "strnum option"
  cn_o :: "strnum option"
  cn_asset :: "strnum option"
  cn_cloid :: "string option"

record HyperliquidModifyRequest =
  mr_oid :: strnum
  mr_order :: HyperliquidOrderRequest

record HyperliquidExchangeAction =
  ea_type :: string
  ea_order :: "HyperliquidOrderRequest option"
  ea_cancels :: "HyperliquidCancelRequest list option"
  ea_asset :: "strnum option"
  ea_leverage :: "int option"
  ea_amount :: "strnum option"
  ea_marketId :: "strnum option"
  ea_recipient :: "string option"
  ea_orders :: "HyperliquidOrderRequest list option"
  ea_modifies :: "HyperliquidModifyRequest list option"
  ea_oid :: "strnum option"
  ea_self :: "HyperliquidOrderRequest option"

record HyperliquidExchangeRequest =
  rq_action :: HyperliquidExchangeAction
  rq_nonce :: int

record PermitActionInfo =
  permitAction :: PermitAction
  info_nonce :: int

definition DEFAULT_EXPIRY :: int where
  "DEFAULT_EXPIRY = 60"

definition DEFAULT_WINDOW_K :: int where
  "DEFAULT_WINDOW_K = 128"

definition DEFAULT_MAX_FEE :: int where
  "DEFAULT_MAX_FEE = 1000000"

text \<open>
  The clock is the stream of the values that successive calls of \<open>Date.now()\<close> return;
  a call takes the head and leaves the tail. \<open>Date.now()\<close> is a whole number of
  milliseconds of magnitude at most \<open>8.64e15\<close>, which \<open>Date.now().toString()\<close>
  prints in decimal digits.
\<close>

type_synonym clock = "int stream"

definition Date_now :: "clock \<Rightarrow> int \<times> clock" where
  "Date_now clk = (shd clk, stl clk)"

subsection \<open>\<open>resolveMarket\<close>, \<open>ensureClientId\<close>\<close>

definition resolveMarket ::
  "strnum option \<Rightarrow> HyperliquidPermitContext \<Rightarrow> error + HyperliquidMarketConfig" where
  "resolveMarket identifier ctx =
     (case identifier of
        Some (Num n) \<Rightarrow>
          (case cx_byIndex ctx n of
             None \<Rightarrow> Inl (UnknownMarket identifier)
           | Some market \<Rightarrow> Inr market)
      | Some (Str symbol') \<Rightarrow>
          (case cx_bySymbol ctx symbol' of
             None \<Rightarrow> Inl (UnknownMarket identifier)
           | Some market \<Rightarrow> Inr market)
      | None \<Rightarrow> Inl (UnknownMarket identifier))"

text \<open>
  \<open>ensureClientId\<close> writes to the order it is given: the functions that call it return
  the order (and the clock) as they leave them, also when they throw.
\<close>

definition parseClientId ::
  "HyperliquidOrderRequest \<Rightarrow> string \<Rightarrow> (error + int) \<times> HyperliquidOrderRequest" where
  "parseClientId order' c =
     (case BigInt_str c of
        Some n \<Rightarrow> (Inr n, order')
      | None \<Rightarrow>
          (case BigInt_str (''0x'' @ hex_of_string c) of
             None \<Rightarrow> (Inl (SyntaxError (''0x'' @ hex_of_string c)), order')
           | Some hash \<Rightarrow> (Inr hash, order'\<lparr>or_c := Some (toString hash)\<rparr>)))"

definition ensureClientId ::
  "HyperliquidOrderRequest \<Rightarrow> clock
   \<Rightarrow> (error + int) \<times> HyperliquidOrderRequest \<times> clock" where
  "ensureClientId order' clk =
     (if or_c order' = None \<or> or_c order' = Some []
      then (let (now, clk') = Date_now clk;
                (r, order'') = parseClientId (order'\<lparr>or_c := Some (toString now)\<rparr>) (toString now)
            in (r, order'', clk'))
      else (let (r, order'') = parseClientId order' (case or_c order' of Some c \<Rightarrow> c | None \<Rightarrow> [])
            in (r, order'', clk)))"

definition isCancelByCloidRequest :: "HyperliquidCancelRequest \<Rightarrow> bool" where
  "isCancelByCloidRequest v = (cn_cloid v \<noteq> None)"

subsection \<open>\<open>decimalToFixed\<close>\<close>

definition startsWith :: "string \<Rightarrow> char \<Rightarrow> bool" where
  "startsWith s c = (case s of [] \<Rightarrow> False | x # _ \<Rightarrow> x = c)"

text \<open>
  \<open>const [whole, fraction = ""] = unsigned.split(".")\<close>: the text before the first
  dot, and the text between the first and the second dot (empty when there is no dot).
\<close>

definition split_dot :: "string \<Rightarrow> string \<times> string" where
  "split_dot u =
     (let whole = takeWhile (\<lambda>c. c \<noteq> CHR ''.'') u;
          rest = dropWhile (\<lambda>c. c \<noteq> CHR ''.'') u
      in (whole, if rest = [] then [] else takeWhile (\<lambda>c. c \<noteq> CHR ''.'') (tl rest)))"

definition decimalToFixed :: "string \<Rightarrow> nat \<Rightarrow> error + int" where
  "decimalToFixed stringValue decimals =
     (let isNegative = startsWith stringValue (CHR ''-'');
          unsigned = (if isNegative \<or> startsWith stringValue (CHR ''+'')
                      then drop 1 stringValue else stringValue);
          (whole, fraction) = split_dot unsigned;
          normalizedFraction = take decimals (fraction @ replicate decimals (CHR ''0''));
          digits = dropWhile (\<lambda>c. c = CHR ''0'') (whole @ normalizedFraction);
          literal = (if digits = [] then ''0'' else digits)
      in case BigInt_str literal of
           None \<Rightarrow> Inl (SyntaxError literal)
         | Some magnitude \<Rightarrow> Inr (if isNegative then - magnitude else magnitude))"

subsection \<open>\<open>toTimeInForceValue\<close>\<close>

definition toTimeInForceValue :: "string \<Rightarrow> error + TimeInForceValue" where
  "toTimeInForceValue tif =
     (if tif = ''Gtc'' \<or> tif = ''GTC'' then Inr GTC
      else if tif = ''Ioc'' \<or> tif = ''IOC'' then Inr IOC
      else if tif = ''Alo'' \<or> tif = ''ALO'' then Inr ALO
      else Inl (UnsupportedTimeInForce tif))"



subsection \<open>\<open>buildPlaceAction\<close>, \<open>buildModifyAction\<close>\<close>

definition orderTif :: "HyperliquidOrderRequest \<Rightarrow> string" where
  "orderTif order' = (case or_tif order' of None \<Rightarrow> ''Gtc'' | Some t \<Rightarrow> t)"

definition buildPlaceAction ::
  "HyperliquidOrderRequest \<Rightarrow> HyperliquidMarketConfig \<Rightarrow> clock
   \<Rightarrow> (error + PermitAction) \<times> HyperliquidOrderRequest \<times> clock" where
  "buildPlaceAction order' market clk =
     (let (r, order'', clk') = ensureClientId order' clk
      in (bind_result r (\<lambda>clientId.
          bind_result (decimalToFixed (or_p order'') (mc_quoteDecimals market)) (\<lambda>price.
          bind_result (decimalToFixed (or_s order'') (mc_baseDecimals market)) (\<lambda>size'.
          bind_result (toTimeInForceValue (orderTif order'')) (\<lambda>tif.
            Inr (Place (mc_marketId market) clientId (if or_b order'' then 0 else 1) size'
                   (Some price) tif (or_r order'') None 0 None))))),
          order'', clk'))"

definition buildModifyAction ::
  "HyperliquidModifyRequest \<Rightarrow> HyperliquidMarketConfig \<Rightarrow> clock
   \<Rightarrow> (error + PermitAction) \<times> HyperliquidModifyRequest \<times> clock" where
  "buildModifyAction modify market clk =
     (let (r, order'', clk') = ensureClientId (mr_order modify) clk
      in (bind_result r (\<lambda>newClientId.
          bind_result (decimalToFixed (or_p order'') (mc_quoteDecimals market)) (\<lambda>price.
          bind_result (decimalToFixed (or_s order'') (mc_baseDecimals market)) (\<lambda>size'.
          bind_result (toTimeInForceValue (orderTif order'')) (\<lambda>tif.
          bind_result (BigInt (mr_oid modify)) (\<lambda>cancelOrderId.
            Inr (Modify (mc_marketId market) cancelOrderId newClientId
                   (if or_b order'' then 0 else 1) size' (Some price) tif (or_r order'')
                   None 0 None)))))),
          modify\<lparr>mr_order := order''\<rparr>, clk'))"

subsection \<open>\<open>buildPermitActions\<close>\<close>

text \<open>
  \<open>add(permitAction, offset)\<close> pushes the action with the nonce
  \<open>baseNonce + BigInt(offset)\<close>. Each \<open>forEach\<close> is a recursion over the list that
  carries the index; a throw ends it, and the elements visited so far stay as written.
\<close>

definition add :: "int \<Rightarrow> PermitAction \<Rightarrow> nat \<Rightarrow> PermitActionInfo" where
  "add baseNonce permitAction' offset' =
     \<lparr>permitAction = permitAction', info_nonce = baseNonce + int offset'\<rparr>"

definition cons_result :: "'a \<Rightarrow> error + 'a list \<Rightarrow> error + 'a list" where
  "cons_result x r = (case r of Inl e \<Rightarrow> Inl e | Inr xs \<Rightarrow> Inr (x # xs))"

fun cancel_each ::
  "HyperliquidPermitContext \<Rightarrow> int \<Rightarrow> nat \<Rightarrow> HyperliquidCancelRequest list
   \<Rightarrow> error + PermitActionInfo list" where
  "cancel_each ctx baseNonce idx [] = Inr []"
| "cancel_each ctx baseNonce idx (request # others) =
     bind_result (resolveMarket (cn_a request) ctx) (\<lambda>market.
     bind_result (case cn_o request of None \<Rightarrow> Inl TypeError | Some v \<Rightarrow> BigInt v) (\<lambda>orderId.
       cons_result (add baseNonce (CancelById (mc_marketId market) orderId) idx)
         (cancel_each ctx baseNonce (Suc idx) others)))"

fun cancelByCloid_each ::
  "HyperliquidPermitContext \<Rightarrow> int \<Rightarrow> nat \<Rightarrow> HyperliquidCancelRequest list
   \<Rightarrow> error + PermitActionInfo list" where
  "cancelByCloid_each ctx baseNonce idx [] = Inr []"
| "cancelByCloid_each ctx baseNonce idx (request # others) =
     (if \<not> isCancelByCloidRequest request then Inl CancelByCloidRequiresFields
      else
        bind_result (resolveMarket (cn_asset request) ctx) (\<lambda>market.
        bind_result (case cn_cloid request of None \<Rightarrow> Inl TypeError | Some c \<Rightarrow> BigInt (Str c))
          (\<lambda>clientId.
            cons_result (add baseNonce (CancelByClientId (mc_marketId market) clientId) idx)
              (cancelByCloid_each ctx baseNonce (Suc idx) others))))"

fun batchOrder_each ::
  "HyperliquidPermitContext \<Rightarrow> int \<Rightarrow> nat \<Rightarrow> HyperliquidOrderRequest list \<Rightarrow> clock
   \<Rightarrow> (error + PermitActionInfo list) \<times> HyperliquidOrderRequest list \<times> clock" where
  "batchOrder_each ctx baseNonce idx [] clk = (Inr [], [], clk)"
| "batchOrder_each ctx baseNonce idx (order' # others) clk =
     (case resolveMarket (or_a order') ctx of
        Inl e \<Rightarrow> (Inl e, order' # others, clk)
      | Inr market \<Rightarrow>
          (case buildPlaceAction order' market clk of
             (Inl e, order'', clk') \<Rightarrow> (Inl e, order'' # others, clk')
           | (Inr act, order'', clk') \<Rightarrow>
               (case batchOrder_each ctx baseNonce (Suc idx) others clk' of
                  (r, others', clk'') \<Rightarrow>
                    (cons_result (add baseNonce act idx) r, order'' # others', clk''))))"

fun modifyBatch_each ::
  "HyperliquidPermitContext \<Rightarrow> int \<Rightarrow> nat \<Rightarrow> HyperliquidModifyRequest list \<Rightarrow> clock
   \<Rightarrow> (error + PermitActionInfo list) \<times> HyperliquidModifyRequest list \<times> clock" where
  "modifyBatch_each ctx baseNonce idx [] clk = (Inr [], [], clk)"
| "modifyBatch_each ctx baseNonce idx (modify # others) clk =
     (case resolveMarket (or_a (mr_order modify)) ctx of
        Inl e \<Rightarrow> (Inl e, modify # others, clk)
      | Inr market \<Rightarrow>
          (case buildModifyAction modify market clk of
             (Inl e, modify', clk') \<Rightarrow> (Inl e, modify' # others, clk')
           | (Inr act, modify', clk') \<Rightarrow>
               (case modifyBatch_each ctx baseNonce (Suc idx) others clk' of
                  (r, others', clk'') \<Rightarrow>
                    (cons_result (add baseNonce act idx) r, modify' # others', clk''))))"

text \<open>
  Two functions of the platform are parameters of the adapter, in a record \<open>rt\<close>:
  \<open>new PublicKey(string)\<close>, where \<open>None\<close> stands for its throw, and the exponent
  notation of \<open>String\<close>. \<open>Math.min(Number(action.leverage ?? 0) * 100, 65_535)\<close>
  is computed on an integral leverage.
\<close>

record Runtime =
  newPublicKey :: "string \<Rightarrow> PublicKey option"
  exponential :: "int \<Rightarrow> string"

definition order_case ::
  "HyperliquidPermitContext \<Rightarrow> int \<Rightarrow> HyperliquidOrderRequest \<Rightarrow> clock
   \<Rightarrow> (error + PermitActionInfo list) \<times> HyperliquidOrderRequest \<times> clock" where
  "order_case ctx baseNonce order' clk =
     (if or_a order' = None then (Inr [], order', clk)
      else
        (case resolveMarket (or_a order') ctx of
           Inl e \<Rightarrow> (Inl e, order', clk)
         | Inr market \<Rightarrow>
             (case buildPlaceAction order' market clk of
                (r, order'', clk') \<Rightarrow>
                  (bind_result r (\<lambda>act. Inr [add baseNonce act 0]), order'', clk'))))"

definition faucet_case ::
  "Runtime \<Rightarrow> HyperliquidPermitContext \<Rightarrow> int
   \<Rightarrow> HyperliquidExchangeAction \<Rightarrow> error + PermitActionInfo list" where
  "faucet_case rt ctx baseNonce act =
     bind_result (case ea_marketId act of None \<Rightarrow> Inr 64 | Some m \<Rightarrow> BigInt m) (\<lambda>marketId.
       (case
          bind_result
            (decimalToFixed
               (String (exponential rt) (case ea_amount act of None \<Rightarrow> Str ''0'' | Some a \<Rightarrow> a))
               6)
            (\<lambda>amount.
          bind_result
            (case ea_recipient act of
               None \<Rightarrow> Inr (cx_authorizer ctx)
             | Some recipientStr \<Rightarrow>
                 if recipientStr = [] then Inr (cx_authorizer ctx)
                 else (case newPublicKey rt recipientStr of
                         None \<Rightarrow> Inl (SyntaxError recipientStr)
                       | Some key \<Rightarrow> Inr key))
            (\<lambda>recipient. Inr [add baseNonce (Faucet marketId amount recipient) 0]))
        of Inl err \<Rightarrow> Inl (InvalidFaucetRequest err)
         | Inr infos \<Rightarrow> Inr infos))"

definition buildPermitActions ::
  "Runtime \<Rightarrow> HyperliquidExchangeRequest \<Rightarrow> HyperliquidPermitContext
   \<Rightarrow> clock \<Rightarrow> (error + PermitActionInfo list) \<times> HyperliquidExchangeRequest \<times> clock" where
  "buildPermitActions rt payload ctx clk =
     (let act = rq_action payload;
          baseNonce = rq_nonce payload
      in
      if ea_type act = ''order'' then
        (case ea_order act of
           Some order' \<Rightarrow>
             (case order_case ctx baseNonce order' clk of
                (r, order'', clk') \<Rightarrow>
                  (r, payload\<lparr>rq_action := act\<lparr>ea_order := Some order''\<rparr>\<rparr>, clk'))
         | None \<Rightarrow>
             (case ea_self act of
                None \<Rightarrow> (Inr [], payload, clk)
              | Some order' \<Rightarrow>
                  (case order_case ctx baseNonce order' clk of
                     (r, order'', clk') \<Rightarrow>
                       (r, payload\<lparr>rq_action := act\<lparr>ea_self := Some order''\<rparr>\<rparr>, clk'))))
      else if ea_type act = ''cancel'' then
        (cancel_each ctx baseNonce 0 (case ea_cancels act of None \<Rightarrow> [] | Some cs \<Rightarrow> cs),
         payload, clk)
      else if ea_type act = ''cancelByCloid'' then
        (cancelByCloid_each ctx baseNonce 0 (case ea_cancels act of None \<Rightarrow> [] | Some cs \<Rightarrow> cs),
         payload, clk)
      else if ea_type act = ''batchOrder'' then
        (case ea_orders act of
           None \<Rightarrow> (Inr [], payload, clk)
         | Some orders \<Rightarrow>
             (case batchOrder_each ctx baseNonce 0 orders clk of
                (r, orders', clk') \<Rightarrow>
                  (r, payload\<lparr>rq_action := act\<lparr>ea_orders := Some orders'\<rparr>\<rparr>, clk')))
      else if ea_type act = ''updateLeverage'' then
        (if ea_asset act = None then (Inr [], payload, clk)
         else
           (bind_result (resolveMarket (ea_asset act) ctx) (\<lambda>market.
              let leverageBps =
                    min ((case ea_leverage act of None \<Rightarrow> 0 | Some l \<Rightarrow> l) * 100) 65535
              in Inr [add baseNonce (SetLeverage (mc_marketId market) leverageBps None) 0]),
            payload, clk))
      else if ea_type act = ''faucet'' then
        (faucet_case rt ctx baseNonce act, payload, clk)
      else if ea_type act = ''withdraw'' then
        (case ea_amount act of
           None \<Rightarrow> (Inr [], payload, clk)
         | Some a \<Rightarrow>
             (bind_result (decimalToFixed (String (exponential rt) a) 6) (\<lambda>amountFixed.
                Inr [add baseNonce (Withdraw amountFixed (cx_authorizer ctx) None) 0]),
              payload, clk))
      else if ea_type act = ''noop'' then
        (Inr [add baseNonce Noop 0], payload, clk)
      else if ea_type act = ''modify'' then
        (case ea_order act of
           None \<Rightarrow> (Inr [], payload, clk)
         | Some order' \<Rightarrow>
             (case resolveMarket (or_a order') ctx of
                Inl e \<Rightarrow> (Inl e, payload, clk)
              | Inr market \<Rightarrow>
                  (case buildModifyAction
                          \<lparr>mr_oid = (case ea_oid act of None \<Rightarrow> Num 0 | Some v \<Rightarrow> v),
                           mr_order = order'\<rparr> market clk of
                     (r, modify', clk') \<Rightarrow>
                       (bind_result r (\<lambda>a. Inr [add baseNonce a 0]),
                        payload\<lparr>rq_action := act\<lparr>ea_order := Some (mr_order modify')\<rparr>\<rparr>,
                        clk'))))
      else if ea_type act = ''modifyBatch'' then
        (case ea_modifies act of
           None \<Rightarrow> (Inr [], payload, clk)
         | Some modifies \<Rightarrow>
             (case modifyBatch_each ctx baseNonce 0 modifies clk of
                (r, modifies', clk') \<Rightarrow>
                  (r, payload\<lparr>rq_action := act\<lparr>ea_modifies := Some modifies'\<rparr>\<rparr>, clk')))
      else (Inr [], payload, clk))"

subsection \<open>\<open>buildPermitEnvelopesFromExchangeRequest\<close>\<close>

definition envelopeOf ::
  "HyperliquidPermitContext \<Rightarrow> PermitActionInfo \<Rightarrow> int \<Rightarrow> PermitEnvelopeV1" where
  "envelopeOf ctx info now =
     (let nowSeconds = now div 1000
      in \<lparr>domain = \<lparr>programId = cx_programId ctx, version = 1, cluster = cx_clusterType ctx\<rparr>,
          authorizer = cx_authorizer ctx,
          keyType = Ed25519,
          action = permitAction info,
          mode = HlWindow (case cx_hlWindowK ctx of None \<Rightarrow> DEFAULT_WINDOW_K | Some w \<Rightarrow> w),
          expiresUnix =
            nowSeconds + (case cx_expirySeconds ctx of None \<Rightarrow> DEFAULT_EXPIRY | Some x \<Rightarrow> x),
          maxFeeQuote = (case cx_maxFeeQuote ctx of None \<Rightarrow> DEFAULT_MAX_FEE | Some f \<Rightarrow> f),
          relayer = cx_relayer ctx,
          nonce = info_nonce info\<rparr>)"

fun envelopes_map ::
  "HyperliquidPermitContext \<Rightarrow> PermitActionInfo list \<Rightarrow> clock \<Rightarrow> PermitEnvelopeV1 list \<times> clock"
  where
  "envelopes_map ctx [] clk = ([], clk)"
| "envelopes_map ctx (info # infos) clk =
     (case Date_now clk of
        (now, clk') \<Rightarrow>
          (case envelopes_map ctx infos clk' of
             (envs, clk'') \<Rightarrow> (envelopeOf ctx info now # envs, clk'')))"

definition buildPermitEnvelopesFromExchangeRequest ::
  "Runtime \<Rightarrow> HyperliquidExchangeRequest \<Rightarrow> HyperliquidPermitContext
   \<Rightarrow> clock \<Rightarrow> (error + PermitEnvelopeV1 list) \<times> HyperliquidExchangeRequest \<times> clock" where
  "buildPermitEnvelopesFromExchangeRequest rt request ctx clk =
     (case buildPermitActions rt request ctx clk of
        (Inl e, request', clk') \<Rightarrow> (Inl e, request', clk')
      | (Inr infos, request', clk') \<Rightarrow>
          (case envelopes_map ctx infos clk' of
             (envs, clk'') \<Rightarrow> (Inr envs, request', clk'')))"



section \<open>Notions of the specification\<close>

subsection \<open>Valid envelopes and the byte layout of an envelope\<close>

text \<open>
  A valid \<open>PermitEnvelopeV1\<close> holds, in every field, a value of the field's declared
  width: \<open>is_u w\<close> is the range of an unsigned integer of \<open>w\<close> bytes, \<open>is_s w\<close> of a
  signed one, and an address, a salt and an allowance id have 32 bytes. The functions
  \<open>enc_\<close> write the bytes of a value of each type, field after field: \<open>enc_u w n\<close>
  is the \<open>w\<close> little-endian bytes of \<open>n\<close>, \<open>enc_s w n\<close> those of its two's
  complement, \<open>enc_u8 n\<close> the single byte \<open>n\<close>, \<open>enc_opt\<close> the presence byte and
  the value.
\<close>


definition is_u :: "nat \<Rightarrow> int \<Rightarrow> bool" where
  "is_u w n = (0 \<le> n \<and> n < 256 ^ w)"

definition is_s :: "nat \<Rightarrow> int \<Rightarrow> bool" where
  "is_s w n = (- (256 ^ w div 2) \<le> n \<and> n < 256 ^ w div 2)"

definition enc_u :: "nat \<Rightarrow> int \<Rightarrow> byte list" where
  "enc_u w n = le_bytes w (nat n)"

definition is_u8 :: "int \<Rightarrow> bool" where
  "is_u8 n = (0 \<le> n \<and> n < 256)"

definition enc_u8 :: "int \<Rightarrow> byte list" where
  "enc_u8 n = [word_of_nat (nat n)]"

definition enc_s :: "nat \<Rightarrow> int \<Rightarrow> byte list" where
  "enc_s w n = le_bytes w (nat (n mod 256 ^ w))"

fun enc_opt :: "('a \<Rightarrow> byte list) \<Rightarrow> 'a option \<Rightarrow> byte list" where
  "enc_opt f None = [0]"
| "enc_opt f (Some x) = 1 # f x"

fun valid_opt :: "('a \<Rightarrow> bool) \<Rightarrow> 'a option \<Rightarrow> bool" where
  "valid_opt P None = True"
| "valid_opt P (Some x) = P x"

definition enc_hf :: "HealthFloor \<Rightarrow> byte list" where
  "enc_hf h = enc_u8 (HealthMetric_code (hf_metric h)) @ enc_s 8 (hf_min h)"

definition valid_hf :: "HealthFloor \<Rightarrow> bool" where
  "valid_hf h = is_s 8 (hf_min h)"

fun enc_tif :: "TimeInForceValue \<Rightarrow> byte list" where
  "enc_tif IOC = [0]"
| "enc_tif FOK = [1]"
| "enc_tif GTC = [2]"
| "enc_tif ALO = [3]"
| "enc_tif (GTT t) = 4 # enc_u 8 t"

fun valid_tif :: "TimeInForceValue \<Rightarrow> bool" where
  "valid_tif (GTT t) = is_u 8 t"
| "valid_tif _ = True"

fun enc_mode :: "ReplayMode \<Rightarrow> byte list" where
  "enc_mode (Sequence e) = 0 # enc_u 8 e"
| "enc_mode (Nonce s) = 1 # s"
| "enc_mode (Allowance i) = 2 # i"
| "enc_mode (HlWindow w) = 3 # enc_u8 w"

fun valid_mode :: "ReplayMode \<Rightarrow> bool" where
  "valid_mode (Sequence e) = is_u 8 e"
| "valid_mode (Nonce s) = (length s = 32)"
| "valid_mode (Allowance i) = (length i = 32)"
| "valid_mode (HlWindow w) = is_u8 w"

definition enc_order_tail ::
  "int option \<Rightarrow> TimeInForceValue \<Rightarrow> bool \<Rightarrow> int option \<Rightarrow> int \<Rightarrow> HealthFloor option \<Rightarrow> byte list" where
  "enc_order_tail p t r tp tt hf =
     enc_opt (enc_u 8) p @ enc_tif t @ [if r then 1 else 0] @ enc_opt (enc_u 8) tp
     @ enc_u8 tt @ enc_opt enc_hf hf"

definition valid_order_tail ::
  "int option \<Rightarrow> TimeInForceValue \<Rightarrow> bool \<Rightarrow> int option \<Rightarrow> int \<Rightarrow> HealthFloor option \<Rightarrow> bool" where
  "valid_order_tail p t r tp tt hf =
     (valid_opt (is_u 8) p \<and> valid_tif t \<and> valid_opt (is_u 8) tp \<and> is_u8 tt
      \<and> valid_opt valid_hf hf)"

fun enc_action :: "PermitAction \<Rightarrow> byte list" where
  "enc_action (Place m c s q p t r tp tt hf) =
     0 # enc_u 8 m @ enc_u 16 c @ enc_u8 s @ enc_u 8 q @ enc_order_tail p t r tp tt hf"
| "enc_action (CancelById m oid) = 1 # enc_u 8 m @ enc_u 8 oid"
| "enc_action (CancelByClientId m c) = 2 # enc_u 8 m @ enc_u 16 c"
| "enc_action (CancelAll m) = 3 # enc_opt (enc_u 8) m"
| "enc_action (Modify m oid c s q p t r tp tt hf) =
     4 # enc_u 8 m @ enc_u 8 oid @ enc_u 16 c @ enc_u8 s @ enc_u 8 q
     @ enc_order_tail p t r tp tt hf"
| "enc_action (Withdraw a owner hf) = 5 # enc_u 8 a @ owner @ enc_opt enc_hf hf"
| "enc_action (SetLeverage m bps hf) = 6 # enc_u 8 m @ enc_u 2 bps @ enc_opt enc_hf hf"
| "enc_action Noop = [7]"
| "enc_action (Faucet m a r) = 8 # enc_u 8 m @ enc_u 8 a @ r"

fun valid_action :: "PermitAction \<Rightarrow> bool" where
  "valid_action (Place m c s q p t r tp tt hf) =
     (is_u 8 m \<and> is_u 16 c \<and> is_u8 s \<and> is_u 8 q \<and> valid_order_tail p t r tp tt hf)"
| "valid_action (CancelById m oid) = (is_u 8 m \<and> is_u 8 oid)"
| "valid_action (CancelByClientId m c) = (is_u 8 m \<and> is_u 16 c)"
| "valid_action (CancelAll m) = valid_opt (is_u 8) m"
| "valid_action (Modify m oid c s q p t r tp tt hf) =
     (is_u 8 m \<and> is_u 8 oid \<and> is_u 16 c \<and> is_u8 s \<and> is_u 8 q
      \<and> valid_order_tail p t r tp tt hf)"
| "valid_action (Withdraw a owner hf) = (is_u 8 a \<and> length owner = 32 \<and> valid_opt valid_hf hf)"
| "valid_action (SetLeverage m bps hf) = (is_u 8 m \<and> is_u 2 bps \<and> valid_opt valid_hf hf)"
| "valid_action Noop = True"
| "valid_action (Faucet m a r) = (is_u 8 m \<and> is_u 8 a \<and> length r = 32)"

definition enc_domain :: "PermitDomain \<Rightarrow> byte list" where
  "enc_domain d = programId d @ enc_u8 (ClusterType_code (cluster d)) @ enc_u8 (version d)"

definition enc_envelope :: "PermitEnvelopeV1 \<Rightarrow> byte list" where
  "enc_envelope e =
     enc_domain (domain e) @ authorizer e @ enc_u8 (KeyType_code (keyType e))
     @ enc_action (action e) @ enc_mode (mode e) @ enc_s 8 (expiresUnix e)
     @ enc_u 8 (maxFeeQuote e) @ enc_opt (\<lambda>r. r) (relayer e) @ enc_u 8 (nonce e)"

definition valid_envelope :: "PermitEnvelopeV1 \<Rightarrow> bool" where
  "valid_envelope e =
     (length (programId (domain e)) = 32 \<and> is_u8 (version (domain e))
      \<and> length (authorizer e) = 32 \<and> valid_action (action e) \<and> valid_mode (mode e)
      \<and> is_s 8 (expiresUnix e) \<and> is_u 8 (maxFeeQuote e)
      \<and> valid_opt (\<lambda>r. length r = 32) (relayer e) \<and> is_u 8 (nonce e))"

definition spec_enc_domain :: "PermitDomain \<Rightarrow> byte list" where
  "spec_enc_domain d = programId d @ enc_u8 (version d) @ enc_u8 (ClusterType_code (cluster d))"

subsection \<open>Decimal strings and case-insensitive strings\<close>

text \<open>
  \<open>dec_val\<close> is the number a string of decimal digits denotes. The exact scaled value
  of the decimal string \<open>w.f\<close> with sign \<open>neg\<close>, at \<open>d\<close> decimals, is the rational
  \<open>\<plusminus> w.f * 10 ^ d\<close>; \<open>toward_zero\<close> truncates a rational toward zero.
  \<open>toLowerCase\<close> is the case-insensitive form of an ASCII string.
\<close>

definition is_digit :: "char \<Rightarrow> bool" where
  "is_digit c = (48 \<le> (of_char c :: nat) \<and> (of_char c :: nat) \<le> 57)"

definition dec_val :: "string \<Rightarrow> nat" where
  "dec_val s = foldl (\<lambda>a c. 10 * a + (of_char c - 48)) 0 s"

definition exact_scaled :: "bool \<Rightarrow> string \<Rightarrow> string \<Rightarrow> nat \<Rightarrow> rat" where
  "exact_scaled neg w f d =
     (if neg then - 1 else 1) * (of_nat (dec_val (w @ f)) / 10 ^ length f) * 10 ^ d"

definition toward_zero :: "rat \<Rightarrow> int" where
  "toward_zero x = (if x < 0 then - \<lfloor>- x\<rfloor> else \<lfloor>x\<rfloor>)"

definition toLowerCase :: "string \<Rightarrow> string" where
  "toLowerCase s =
     map (\<lambda>c. if 65 \<le> (of_char c :: nat) \<and> (of_char c :: nat) \<le> 90
               then char_of (of_char c + 32 :: nat) else c) s"


subsection \<open>Requests\<close>

text \<open>
  The number of sub-items of a batch request; the action kinds the adapter supports; the
  order an \<open>order\<close> request carries (\<open>action.order\<close>, or else the action itself);
  a request that lacks its required sub-object or field; and a request with the client
  ids of its orders erased, to compare two requests up to that field.
\<close>

definition subitems :: "HyperliquidExchangeAction \<Rightarrow> nat" where
  "subitems a =
     (if ea_type a = ''batchOrder'' then (case ea_orders a of None \<Rightarrow> 0 | Some xs \<Rightarrow> length xs)
      else if ea_type a = ''modifyBatch'' then (case ea_modifies a of None \<Rightarrow> 0 | Some xs \<Rightarrow> length xs)
      else (case ea_cancels a of None \<Rightarrow> 0 | Some xs \<Rightarrow> length xs))"

definition supported_types :: "string set" where
  "supported_types =
     {''order'', ''cancel'', ''cancelByCloid'', ''batchOrder'', ''updateLeverage'', ''faucet'',
      ''withdraw'', ''noop'', ''modify'', ''modifyBatch''}"

definition order_of :: "HyperliquidExchangeAction \<Rightarrow> HyperliquidOrderRequest option" where
  "order_of a = (case ea_order a of Some order' \<Rightarrow> Some order' | None \<Rightarrow> ea_self a)"

definition lacks_required :: "HyperliquidExchangeAction \<Rightarrow> bool" where
  "lacks_required a =
     (ea_type a = ''order'' \<and> (case order_of a of None \<Rightarrow> True | Some order' \<Rightarrow> or_a order' = None)
      \<or> ea_type a = ''modify'' \<and> ea_order a = None
      \<or> ea_type a = ''updateLeverage'' \<and> ea_asset a = None
      \<or> ea_type a = ''withdraw'' \<and> ea_amount a = None)"

definition erase_c :: "HyperliquidOrderRequest \<Rightarrow> HyperliquidOrderRequest" where
  "erase_c order' = order'\<lparr>or_c := None\<rparr>"

definition erase_modify :: "HyperliquidModifyRequest \<Rightarrow> HyperliquidModifyRequest" where
  "erase_modify m = m\<lparr>mr_order := erase_c (mr_order m)\<rparr>"

definition erase_request :: "HyperliquidExchangeRequest \<Rightarrow> HyperliquidExchangeRequest" where
  "erase_request req =
     req\<lparr>rq_action := (rq_action req)
       \<lparr>ea_order := map_option erase_c (ea_order (rq_action req)),
        ea_self := map_option erase_c (ea_self (rq_action req)),
        ea_orders := map_option (map erase_c) (ea_orders (rq_action req)),
        ea_modifies := map_option (map erase_modify) (ea_modifies (rq_action req))\<rparr>\<rparr>"

text \<open>
  An order whose client id is a non-empty string that \<open>BigInt\<close> accepts, and a
  request all of whose orders are such.
\<close>

definition numeric_c :: "HyperliquidOrderRequest \<Rightarrow> bool" where
  "numeric_c order' =
     (case or_c order' of None \<Rightarrow> False | Some c \<Rightarrow> c \<noteq> [] \<and> BigInt_str c \<noteq> None)"

definition all_numeric :: "HyperliquidExchangeRequest \<Rightarrow> bool" where
  "all_numeric req =
     ((case ea_order (rq_action req) of None \<Rightarrow> True | Some order' \<Rightarrow> numeric_c order')
      \<and> (case ea_self (rq_action req) of None \<Rightarrow> True | Some order' \<Rightarrow> numeric_c order')
      \<and> (case ea_orders (rq_action req) of None \<Rightarrow> True | Some xs \<Rightarrow> list_all numeric_c xs)
      \<and> (case ea_modifies (rq_action req) of
            None \<Rightarrow> True
          | Some xs \<Rightarrow> list_all (\<lambda>m. numeric_c (mr_order m)) xs))"

text \<open>
  The permit action a sub-item of a batch stands for, read off the sub-item as the
  adapter leaves it: the client id of an order is the integer its \<open>c\<close> denotes, its
  price and size are the fixed-point values of \<open>p\<close> and \<open>s\<close> at the decimals of its
  market. \<open>subitem_actions\<close> lists the actions of the sub-items of a batch request in
  the order of the batch. \<open>erase_expiry\<close> forgets the expiry time of an envelope, to
  compare two envelopes up to that field.
\<close>

definition client_id :: "HyperliquidOrderRequest \<Rightarrow> error + int" where
  "client_id order' = (case or_c order' of None \<Rightarrow> Inl TypeError | Some c \<Rightarrow> BigInt (Str c))"

definition place_of ::
  "HyperliquidPermitContext \<Rightarrow> HyperliquidOrderRequest \<Rightarrow> error + PermitAction" where
  "place_of ctx order' =
     bind_result (resolveMarket (or_a order') ctx) (\<lambda>market.
     bind_result (client_id order') (\<lambda>clientId.
     bind_result (decimalToFixed (or_p order') (mc_quoteDecimals market)) (\<lambda>price.
     bind_result (decimalToFixed (or_s order') (mc_baseDecimals market)) (\<lambda>size'.
     bind_result (toTimeInForceValue (orderTif order')) (\<lambda>tif.
       Inr (Place (mc_marketId market) clientId (if or_b order' then 0 else 1) size'
              (Some price) tif (or_r order') None 0 None))))))"

definition modify_of ::
  "HyperliquidPermitContext \<Rightarrow> HyperliquidModifyRequest \<Rightarrow> error + PermitAction" where
  "modify_of ctx m =
     bind_result (resolveMarket (or_a (mr_order m)) ctx) (\<lambda>market.
     bind_result (client_id (mr_order m)) (\<lambda>newClientId.
     bind_result (decimalToFixed (or_p (mr_order m)) (mc_quoteDecimals market)) (\<lambda>price.
     bind_result (decimalToFixed (or_s (mr_order m)) (mc_baseDecimals market)) (\<lambda>size'.
     bind_result (toTimeInForceValue (orderTif (mr_order m))) (\<lambda>tif.
     bind_result (BigInt (mr_oid m)) (\<lambda>cancelOrderId.
       Inr (Modify (mc_marketId market) cancelOrderId newClientId
              (if or_b (mr_order m) then 0 else 1) size' (Some price) tif (or_r (mr_order m))
              None 0 None)))))))"

definition cancel_of ::
  "HyperliquidPermitContext \<Rightarrow> HyperliquidCancelRequest \<Rightarrow> error + PermitAction" where
  "cancel_of ctx c =
     bind_result (resolveMarket (cn_a c) ctx) (\<lambda>market.
     bind_result (case cn_o c of None \<Rightarrow> Inl TypeError | Some v \<Rightarrow> BigInt v) (\<lambda>orderId.
       Inr (CancelById (mc_marketId market) orderId)))"

definition cloid_of ::
  "HyperliquidPermitContext \<Rightarrow> HyperliquidCancelRequest \<Rightarrow> error + PermitAction" where
  "cloid_of ctx c =
     bind_result (resolveMarket (cn_asset c) ctx) (\<lambda>market.
     bind_result (case cn_cloid c of None \<Rightarrow> Inl TypeError | Some s \<Rightarrow> BigInt (Str s))
       (\<lambda>clientId. Inr (CancelByClientId (mc_marketId market) clientId)))"

definition subitem_actions ::
  "HyperliquidPermitContext \<Rightarrow> HyperliquidExchangeAction \<Rightarrow> (error + PermitAction) list" where
  "subitem_actions ctx a =
     (if ea_type a = ''batchOrder''
      then map (place_of ctx) (case ea_orders a of None \<Rightarrow> [] | Some xs \<Rightarrow> xs)
      else if ea_type a = ''modifyBatch''
      then map (modify_of ctx) (case ea_modifies a of None \<Rightarrow> [] | Some xs \<Rightarrow> xs)
      else if ea_type a = ''cancel''
      then map (cancel_of ctx) (case ea_cancels a of None \<Rightarrow> [] | Some xs \<Rightarrow> xs)
      else map (cloid_of ctx) (case ea_cancels a of None \<Rightarrow> [] | Some xs \<Rightarrow> xs))"

definition erase_expiry :: "PermitEnvelopeV1 \<Rightarrow> PermitEnvelopeV1" where
  "erase_expiry e = e\<lparr>expiresUnix := 0\<rparr>"

text \<open>
  A call that returns; and the sub-items on which the adapter does not throw: an order
  whose market is known, whose price and size \<open>decimalToFixed\<close> converts and whose
  time-in-force is supported, a modification of such an order whose order id \<open>BigInt\<close>
  accepts, a cancellation of a known market with an order id (\<open>cancel\<close>) or a client
  id (\<open>cancelByCloid\<close>) that \<open>BigInt\<close> accepts. A batch is well formed when all
  its sub-items are. \<open>hexd\<close> holds of the hexadecimal digits.
\<close>

definition succeeds :: "error + 'a \<Rightarrow> bool" where
  "succeeds r = (case r of Inl e \<Rightarrow> False | Inr x \<Rightarrow> True)"

definition order_ok :: "HyperliquidPermitContext \<Rightarrow> HyperliquidOrderRequest \<Rightarrow> bool" where
  "order_ok ctx order' =
     (case resolveMarket (or_a order') ctx of
        Inl e \<Rightarrow> False
      | Inr market \<Rightarrow>
          succeeds (decimalToFixed (or_p order') (mc_quoteDecimals market))
          \<and> succeeds (decimalToFixed (or_s order') (mc_baseDecimals market))
          \<and> succeeds (toTimeInForceValue (orderTif order')))"

definition modify_ok :: "HyperliquidPermitContext \<Rightarrow> HyperliquidModifyRequest \<Rightarrow> bool" where
  "modify_ok ctx m = (order_ok ctx (mr_order m) \<and> succeeds (BigInt (mr_oid m)))"

definition cancel_ok :: "HyperliquidPermitContext \<Rightarrow> HyperliquidCancelRequest \<Rightarrow> bool" where
  "cancel_ok ctx c =
     (succeeds (resolveMarket (cn_a c) ctx)
      \<and> (case cn_o c of None \<Rightarrow> False | Some v \<Rightarrow> succeeds (BigInt v)))"

definition cloid_ok :: "HyperliquidPermitContext \<Rightarrow> HyperliquidCancelRequest \<Rightarrow> bool" where
  "cloid_ok ctx c =
     (succeeds (resolveMarket (cn_asset c) ctx)
      \<and> (case cn_cloid c of None \<Rightarrow> False | Some s \<Rightarrow> succeeds (BigInt (Str s))))"

definition well_formed_batch ::
  "HyperliquidPermitContext \<Rightarrow> HyperliquidExchangeAction \<Rightarrow> bool" where
  "well_formed_batch ctx a =
     (if ea_type a = ''batchOrder''
      then (case ea_orders a of None \<Rightarrow> True | Some xs \<Rightarrow> list_all (order_ok ctx) xs)
      else if ea_type a = ''modifyBatch''
      then (case ea_modifies a of None \<Rightarrow> True | Some xs \<Rightarrow> list_all (modify_ok ctx) xs)
      else if ea_type a = ''cancel''
      then (case ea_cancels a of None \<Rightarrow> True | Some xs \<Rightarrow> list_all (cancel_ok ctx) xs)
      else (case ea_cancels a of None \<Rightarrow> True | Some xs \<Rightarrow> list_all (cloid_ok ctx) xs))"

definition hexd :: "char \<Rightarrow> bool" where
  "hexd c = (case digit_of c of None \<Rightarrow> False | Some d \<Rightarrow> d < 16)"

subsection \<open>The verification instruction\<close>

text \<open>
  The instruction data of section 4.3: one byte for the number of signatures, seven
  little-endian 16-bit fields, one padding byte, the signature, the public key and the
  message. \<open>u16_at off d\<close> reads the 16-bit field at offset \<open>off\<close>.
\<close>

definition instruction_layout :: "byte list \<Rightarrow> byte list \<Rightarrow> byte list \<Rightarrow> byte list" where
  "instruction_layout S P M =
     [1] @ le_bytes 2 16 @ le_bytes 2 0 @ le_bytes 2 80 @ le_bytes 2 0 @ le_bytes 2 112
     @ le_bytes 2 (length M) @ le_bytes 2 0 @ [0] @ S @ P @ M"

definition u16_at :: "nat \<Rightarrow> byte list \<Rightarrow> nat" where
  "u16_at off d = le_val (take 2 (drop off d))"

subsection \<open>A market, a context and an order to run the code on\<close>

definition example_market :: HyperliquidMarketConfig where
  "example_market =
     \<lparr>mc_index = 0, mc_symbol = ''BTC-PERP'', mc_marketId = 64, mc_baseDecimals = 8,
      mc_quoteDecimals = 6\<rparr>"

definition example_context :: HyperliquidPermitContext where
  "example_context =
     \<lparr>cx_programId = replicate 32 7, cx_clusterType = Testnet, cx_authorizer = replicate 32 9,
      cx_relayer = None, cx_expirySeconds = None, cx_hlWindowK = None, cx_maxFeeQuote = None,
      cx_bySymbol = [''BTC-PERP'' \<mapsto> example_market],
      cx_byIndex = [0 \<mapsto> example_market]\<rparr>"

definition example_runtime :: Runtime where
  "example_runtime = \<lparr>newPublicKey = (\<lambda>s. None), exponential = (\<lambda>n. ''1e+21'')\<rparr>"

definition example_order :: "string option \<Rightarrow> HyperliquidOrderRequest" where
  "example_order c =
     \<lparr>or_a = Some (Num 0), or_b = True, or_p = ''131425'', or_s = ''0.00021'', or_r = False,
      or_tif = Some ''Ioc'', or_c = c\<rparr>"

definition example_action :: "string \<Rightarrow> HyperliquidExchangeAction" where
  "example_action t =
     \<lparr>ea_type = t, ea_order = None, ea_cancels = None, ea_asset = None, ea_leverage = None,
      ea_amount = None, ea_marketId = None, ea_recipient = None, ea_orders = None,
      ea_modifies = None, ea_oid = None, ea_self = None\<rparr>"


section \<open>The codec\<close>

subsection \<open>The schema encoder writes the byte layout\<close>

lemma encode_uint_ok: "is_u w n \<Longrightarrow> encode_uint w n = Inr (enc_u w n)"
  by (simp add: encode_uint_def is_u_def enc_u_def)

lemma encode_uint8_ok: "is_u8 n \<Longrightarrow> encode_uint (Suc 0) n = Inr (enc_u8 n)"
proof -
  assume "is_u8 n"
  then have n: "0 \<le> n" "n < 256" by (simp_all add: is_u8_def)
  then have m: "nat n mod 256 = nat n" by simp
  have lb: "le_bytes (Suc 0) (nat n) = [word_of_nat (nat n)]"
    by (simp only: le_bytes.simps m)
  have "encode_uint (Suc 0) n = Inr (le_bytes (Suc 0) (nat n))"
    using n by (simp add: encode_uint_def del: le_bytes.simps)
  then show ?thesis by (simp only: lb enc_u8_def)
qed

lemma encode_sint_ok: "is_s w n \<Longrightarrow> encode_sint w n = Inr (enc_s w n)"
  by (simp add: encode_sint_def is_s_def enc_s_def)

lemma append_result_Inr [simp]: "append_result (Inr a) (Inr b) = Inr (a @ b)"
  by (simp add: append_result_def)

lemma is_u8_codes [simp]:
  "is_u8 (HealthMetric_code hm)" "is_u8 (ClusterType_code c)" "is_u8 (KeyType_code kt)"
  by (cases hm; cases c; cases kt; simp add: is_u8_def)+

lemma encode_hf:
  "valid_opt valid_hf hf \<Longrightarrow>
   encode (OptionL healthFloorSchema) (toBorshHealthFloor hf) = Inr (enc_opt enc_hf hf)"
  by (cases hf)
     (simp_all add: toBorshHealthFloor_def healthFloorSchema_def toBN_def valid_hf_def enc_hf_def
       encode_uint8_ok encode_sint_ok)

lemma encode_tif:
  "valid_tif t \<Longrightarrow> encode tifSchema (toBorshTif t) = Inr (enc_tif t)"
  by (cases t)
     (simp_all add: toBorshTif_def tifSchema_def toBN_def encode_uint_ok)

lemma encode_mode:
  "valid_mode m \<Longrightarrow> encode replayModeSchema (toBorshReplayMode m) = Inr (enc_mode m)"
  by (cases m)
     (simp_all add: toBorshReplayMode_def replayModeSchema_def toBN_def encode_uint_ok
       encode_uint8_ok)

lemma encode_option_u64:
  "valid_opt (is_u 8) p \<Longrightarrow> encode (OptionL U64) (toBorshOptionBN p) = Inr (enc_opt (enc_u 8) p)"
  by (cases p) (simp_all add: toBorshOptionBN_def toBN_def encode_uint_ok)

lemma encode_action:
  "valid_action a \<Longrightarrow> encode permitActionSchema (toBorshAction a) = Inr (enc_action a)"
  by (cases a)
     (simp_all add: permitActionSchema_def toBN_def encode_uint_ok encode_uint8_ok
       valid_order_tail_def enc_order_tail_def encode_hf encode_tif encode_option_u64
       del: encode.simps(9))

lemma encode_envelope:
  "valid_envelope e \<Longrightarrow> encode permitEnvelopeSchema (serializable e) = Inr (enc_envelope e)"
  by (cases "relayer e")
     (simp_all add: valid_envelope_def permitEnvelopeSchema_def permitDomainSchema_def
       serializable_def enc_envelope_def enc_domain_def toBN_def encode_uint_ok encode_uint8_ok
       encode_sint_ok encode_action encode_mode)



lemma length_le_bytes [simp]: "length (le_bytes w n) = w"
  by (induction w arbitrary: n) simp_all

lemma le_val_le_bytes: "le_val (le_bytes w n) = n mod 256 ^ w"
proof (induction w arbitrary: n)
  case 0 then show ?case by simp
next
  case (Suc w)
  have "unat (word_of_nat (n mod 256) :: byte) = n mod 256"
    by (simp add: unat_of_nat)
  then have "le_val (le_bytes (Suc w) n) = n mod 256 + 256 * ((n div 256) mod 256 ^ w)"
    by (simp add: Suc.IH)
  also have "\<dots> = n mod 256 ^ Suc w"
    by (simp add: mod_mult2_eq)
  finally show ?case .
qed

lemma take_bytes_app: "length xs = n \<Longrightarrow> take_bytes n (xs @ rest) = Inr (xs, rest)"
  by (simp add: take_bytes_def)

lemma decode_uint_enc_u:
  "is_u w n \<Longrightarrow> decode_uint w (enc_u w n @ rest) = Inr (n, rest)"
proof -
  assume "is_u w n"
  then have n: "0 \<le> n" "nat n < 256 ^ w"
    by (simp_all add: is_u_def nat_less_iff)
  have "le_val (le_bytes w (nat n)) = nat n"
    using n(2) by (simp add: le_val_le_bytes)
  then show ?thesis
    using n(1) by (simp add: decode_uint_def pbind_def preturn_def enc_u_def take_bytes_app)
qed

lemma decode_uint_byte: "decode_uint (Suc 0) (b # rest) = Inr (uint b, rest)"
  by (simp add: decode_uint_def pbind_def preturn_def take_bytes_def)

lemma decode_uint_enc_u8:
  "is_u8 n \<Longrightarrow> decode_uint (Suc 0) (enc_u8 n @ rest) = Inr (n, rest)"
proof -
  assume "is_u8 n"
  then have n: "0 \<le> n" "nat n < 256" by (auto simp: is_u8_def)
  have "unat (word_of_nat (nat n) :: byte) = nat n"
    using n(2) by (simp add: unat_of_nat)
  then show ?thesis
    using n(1) by (simp add: decode_uint_def pbind_def preturn_def enc_u8_def take_bytes_def)
qed

lemma decode_sint_enc_s:
  "is_s 8 n \<Longrightarrow> decode_sint 8 (enc_s 8 n @ rest) = Inr (n, rest)"
proof -
  assume "is_s 8 n"
  then have n: "- (2 ^ 63) \<le> n" "n < 2 ^ 63" by (simp_all add: is_s_def)
  define v where "v = le_val (le_bytes 8 (nat (n mod 256 ^ 8)))"
  have md: "n mod 256 ^ 8 = (if n < 0 then n + 256 ^ 8 else n)"
  proof (cases "n < 0")
    case True
    have "n mod 256 ^ 8 = (n + 256 ^ 8) mod 256 ^ 8" by simp
    also have "\<dots> = n + 256 ^ 8"
      using n True by (intro mod_pos_pos_trivial) auto
    finally show ?thesis using True by simp
  next
    case False
    then show ?thesis using n by (simp add: mod_pos_pos_trivial)
  qed
  have "int v = n mod 256 ^ 8"
    unfolding v_def by (simp add: le_val_le_bytes nat_mod_distrib)
  then have iv: "int v = (if n < 0 then n + 256 ^ 8 else n)"
    by (simp only: md)
  have tb: "take_bytes 8 (le_bytes 8 (nat (n mod 256 ^ 8)) @ rest) =
            Inr (le_bytes 8 (nat (n mod 256 ^ 8)), rest)"
    by (rule take_bytes_app) simp
  have "decode_sint 8 (enc_s 8 n @ rest) =
        Inr (if 256 ^ 8 div 2 \<le> int v then int v - 256 ^ 8 else int v, rest)"
    unfolding decode_sint_def pbind_def enc_s_def tb preturn_def v_def by simp
  also have "(if 256 ^ 8 div 2 \<le> int v then int v - 256 ^ 8 else int v) = n"
    unfolding iv using n by simp
  finally show ?thesis .
qed


lemma dec_option:
  assumes "\<And>x rest. P x \<Longrightarrow> p (f x @ rest) = Inr (x, rest)" and "valid_opt P v"
  shows "decode_option p (enc_opt f v @ rest) = Inr (v, rest)"
  using assms
  by (cases v) (simp_all add: decode_option_def pbind_def preturn_def decode_uint_byte)

lemma dec_bool: "decode_bool ((if r then 1 else 0) # rest) = Inr (r, rest)"
  by (simp add: decode_bool_def pbind_def preturn_def decode_uint_byte)

lemma dec_HealthMetric:
  "decode_HealthMetric (enc_u8 (HealthMetric_code m) @ rest) = Inr (m, rest)"
  by (cases m) (simp_all add: decode_HealthMetric_def pbind_def preturn_def decode_uint_enc_u8 is_u8_def)

lemma dec_ClusterType:
  "decode_ClusterType (enc_u8 (ClusterType_code c) @ rest) = Inr (c, rest)"
  by (cases c) (simp_all add: decode_ClusterType_def pbind_def preturn_def decode_uint_enc_u8 is_u8_def)

lemma dec_KeyType:
  "decode_KeyType (enc_u8 (KeyType_code kt) @ rest) = Inr (kt, rest)"
  by (cases kt) (simp_all add: decode_KeyType_def pbind_def preturn_def decode_uint_enc_u8 is_u8_def)

lemma dec_hf: "valid_hf h \<Longrightarrow> decode_healthFloor (enc_hf h @ rest) = Inr (h, rest)"
  by (simp add: decode_healthFloor_def enc_hf_def valid_hf_def pbind_def preturn_def
        dec_HealthMetric decode_sint_enc_s)

lemma dec_tif: "valid_tif t \<Longrightarrow> decode_tif (enc_tif t @ rest) = Inr (t, rest)"
  by (cases t)
     (simp_all add: decode_tif_def pbind_def preturn_def decode_uint_byte decode_uint_enc_u)

lemma dec_mode: "valid_mode m \<Longrightarrow> decode_mode (enc_mode m @ rest) = Inr (m, rest)"
  by (cases m)
     (simp_all add: decode_mode_def pbind_def preturn_def decode_uint_byte decode_uint_enc_u
        decode_uint_enc_u8 take_bytes_app)

lemma dec_opt_u64:
  "valid_opt (is_u 8) v \<Longrightarrow>
   decode_option (decode_uint 8) (enc_opt (enc_u 8) v @ rest) = Inr (v, rest)"
  by (rule dec_option [where P = "is_u 8"]) (simp_all add: decode_uint_enc_u)

lemma dec_opt_hf:
  "valid_opt valid_hf v \<Longrightarrow>
   decode_option decode_healthFloor (enc_opt enc_hf v @ rest) = Inr (v, rest)"
  by (rule dec_option [where P = valid_hf]) (simp_all add: dec_hf)

lemma dec_opt_key:
  "valid_opt (\<lambda>r. length r = 32) v \<Longrightarrow>
   decode_option (take_bytes 32) (enc_opt (\<lambda>r. r) v @ rest) = Inr (v, rest)"
  by (rule dec_option [where P = "\<lambda>r. length r = 32"]) (simp_all add: take_bytes_app)

lemma dec_order_tail:
  "valid_order_tail p t r tp tt hf \<Longrightarrow>
   decode_order_tail mk (enc_order_tail p t r tp tt hf @ rest) = Inr (mk p t r tp tt hf, rest)"
  by (simp add: decode_order_tail_def enc_order_tail_def valid_order_tail_def pbind_def
        preturn_def dec_opt_u64 dec_tif dec_bool decode_uint_enc_u8 dec_opt_hf)

lemma dec_action:
  "valid_action a \<Longrightarrow> decode_action (enc_action a @ rest) = Inr (a, rest)"
  by (cases a)
     (simp_all add: decode_action_def pbind_def preturn_def decode_uint_byte decode_uint_enc_u
        decode_uint_enc_u8 take_bytes_app dec_order_tail dec_opt_u64 dec_opt_hf)

lemma dec_domain:
  "length (programId d) = 32 \<Longrightarrow> is_u8 (version d) \<Longrightarrow>
   decode_domain (enc_domain d @ rest) = Inr (d, rest)"
  by (simp add: decode_domain_def enc_domain_def pbind_def preturn_def take_bytes_app
        dec_ClusterType decode_uint_enc_u8)

lemma dec_envelope:
  "valid_envelope e \<Longrightarrow> decode_envelope (enc_envelope e @ rest) = Inr (e, rest)"
  by (simp add: decode_envelope_def enc_envelope_def valid_envelope_def pbind_def preturn_def
        dec_domain take_bytes_app dec_KeyType dec_action dec_mode decode_sint_enc_s
        decode_uint_enc_u dec_opt_key)


lemma length_enc [simp]:
  "length (enc_u w n) = w" "length (enc_s w n) = w" "length (enc_u8 n) = 1"
  by (simp_all add: enc_u_def enc_s_def enc_u8_def)

lemma length_enc_opt_u64: "length (enc_opt (enc_u 8) v) \<le> 9"
  by (cases v) simp_all

lemma length_enc_opt_hf: "length (enc_opt enc_hf v) \<le> 10"
  by (cases v) (simp_all add: enc_hf_def)

lemma length_enc_tif: "length (enc_tif t) \<le> 9"
  by (cases t) simp_all

lemma length_enc_mode: "valid_mode m \<Longrightarrow> length (enc_mode m) \<le> 33"
  by (cases m) simp_all

lemma length_enc_order_tail: "length (enc_order_tail p t r tp tt hf) \<le> 39"
  using length_enc_opt_u64 [of p] length_enc_opt_u64 [of tp] length_enc_tif [of t]
    length_enc_opt_hf [of hf]
  by (simp add: enc_order_tail_def)

lemma length_enc_action: "valid_action a \<Longrightarrow> length (enc_action a) \<le> 81"
proof (cases a)
  case (Place m c s q p t r tp tt hf)
  then show ?thesis using length_enc_order_tail [of p t r tp tt hf] by simp
next
  case (Modify m oid c s q p t r tp tt hf)
  then show ?thesis using length_enc_order_tail [of p t r tp tt hf] by simp
next
  case (CancelAll m)
  then show ?thesis using length_enc_opt_u64 [of m] by simp
next
  case (Withdraw a' owner hf)
  assume "valid_action a"
  then show ?thesis using Withdraw length_enc_opt_hf [of hf] by simp
next
  case (SetLeverage m bps hf)
  then show ?thesis using length_enc_opt_hf [of hf] by simp
next
  case (Faucet m a' r)
  assume "valid_action a"
  then show ?thesis using Faucet by simp
qed simp_all

lemma length_enc_envelope: "valid_envelope e \<Longrightarrow> length (enc_envelope e) \<le> 238"
proof -
  assume v: "valid_envelope e"
  have r: "length (enc_opt (\<lambda>r. r) (relayer e)) \<le> 33"
    using v by (cases "relayer e") (simp_all add: valid_envelope_def)
  show ?thesis
    using v r length_enc_action [of "action e"] length_enc_mode [of "mode e"]
    by (simp add: enc_envelope_def enc_domain_def valid_envelope_def)
qed

lemma encodePermitEnvelope_flat:
  "valid_envelope e \<Longrightarrow> encodePermitEnvelope e = Inr (enc_envelope e)"
  using length_enc_envelope [of e]
  by (simp add: encodePermitEnvelope_def encode_envelope)

lemma decode_enc_envelope:
  "valid_envelope e \<Longrightarrow> decodePermitEnvelope (enc_envelope e) = Inr e"
  using dec_envelope [of e "[]"] by (simp add: decodePermitEnvelope_def)

lemma enc_u8_numeral [simp]: "enc_u8 0 = [0]" "enc_u8 1 = [1]" "enc_u8 (numeral n) = [numeral n]"
  by (simp_all add: enc_u8_def)

text \<open>
  Claim C2, as amended. For every valid envelope, \<open>encodePermitEnvelope\<close> returns the
  fields in this order: the 32 bytes of \<open>domain.programId\<close>, the cluster byte, the
  version byte, then \<open>authorizer\<close>, \<open>keyType\<close>, \<open>action\<close>, \<open>mode\<close>,
  \<open>expiresUnix\<close>, \<open>maxFeeQuote\<close>, the optional \<open>relayer\<close> and \<open>nonce\<close>. The
  domain is written cluster first and version second, as \<open>permitDomainSchema\<close> lists
  them and as \<open>encodePermitEnvelope\<close> builds its object.
\<close>

theorem encode_field_order:
  "valid_envelope e \<Longrightarrow>
   encodePermitEnvelope e =
     Inr (programId (domain e)
          @ enc_u8 (ClusterType_code (cluster (domain e)))
          @ enc_u8 (version (domain e))
          @ authorizer e
          @ enc_u8 (KeyType_code (keyType e))
          @ enc_action (action e)
          @ enc_mode (mode e)
          @ enc_s 8 (expiresUnix e)
          @ enc_u 8 (maxFeeQuote e)
          @ enc_opt (\<lambda>r. r) (relayer e)
          @ enc_u 8 (nonce e))"
  by (simp add: encodePermitEnvelope_flat enc_envelope_def enc_domain_def)

theorem encode_field_order_witness:
  "encodePermitEnvelope
        \<lparr>domain = \<lparr>programId = replicate 32 7, version = 1, cluster = Devnet\<rparr>,
         authorizer = replicate 32 9, keyType = Ed25519, action = Noop, mode = HlWindow 128,
         expiresUnix = 1700000060, maxFeeQuote = 1000000, relayer = None, nonce = 5\<rparr>
   = Inr (replicate 32 7 @ [2, 1] @ replicate 32 9 @ [0] @ [7] @ [3, 128]
          @ enc_s 8 1700000060 @ enc_u 8 1000000 @ [0] @ enc_u 8 5)"
  using encode_field_order
     [of "\<lparr>domain = \<lparr>programId = replicate 32 7, version = 1, cluster = Devnet\<rparr>,
         authorizer = replicate 32 9, keyType = Ed25519, action = Noop, mode = HlWindow 128,
         expiresUnix = 1700000060, maxFeeQuote = 1000000, relayer = None, nonce = 5\<rparr>"]
  by (simp add: valid_envelope_def is_u8_def is_u_def is_s_def)

text \<open>
  The claim as the specification states it puts the version byte before the cluster
  byte. On an envelope of version 1 on Devnet (discriminant 2) the code writes the bytes
  2, 1 after the program id, where the stated order gives 1, 2.
\<close>

theorem encode_domain_order_counterexample:
  "map_sum id (take 34)
     (encodePermitEnvelope
        \<lparr>domain = \<lparr>programId = replicate 32 7, version = 1, cluster = Devnet\<rparr>,
         authorizer = replicate 32 9, keyType = Ed25519, action = Noop, mode = HlWindow 128,
         expiresUnix = 1700000060, maxFeeQuote = 1000000, relayer = None, nonce = 5\<rparr>)
   = Inr (replicate 32 7 @ [2, 1])
   \<and> spec_enc_domain \<lparr>programId = replicate 32 7, version = 1, cluster = Devnet\<rparr>
     = replicate 32 7 @ [1, 2]"
proof -
  let ?e = "\<lparr>domain = \<lparr>programId = replicate 32 7, version = 1, cluster = Devnet\<rparr>,
         authorizer = replicate 32 9, keyType = Ed25519, action = Noop, mode = HlWindow 128,
         expiresUnix = 1700000060, maxFeeQuote = 1000000, relayer = None, nonce = 5\<rparr>"
  have v: "valid_envelope ?e"
    by (simp add: valid_envelope_def is_u8_def is_u_def is_s_def)
  show ?thesis
    by (simp add: encodePermitEnvelope_flat [OF v] enc_envelope_def enc_domain_def
          spec_enc_domain_def)
qed

subsection \<open>Round trip\<close>

text \<open>
  Claim C1. For every valid envelope \<open>e\<close>, encoding succeeds and decoding the encoded
  bytes returns \<open>e\<close>: \<open>decode(encodePermitEnvelope(e)) = e\<close>.
\<close>

theorem decode_encode_roundtrip:
  "valid_envelope e \<Longrightarrow>
   \<exists>bytes. encodePermitEnvelope e = Inr bytes \<and> decodePermitEnvelope bytes = Inr e"
  by (simp add: encodePermitEnvelope_flat decode_enc_envelope)

theorem decode_encode_roundtrip_witness:
  "\<exists>bytes.
     encodePermitEnvelope
        \<lparr>domain = \<lparr>programId = replicate 32 7, version = 1, cluster = Devnet\<rparr>,
         authorizer = replicate 32 9, keyType = Ed25519,
         action = Place 64 1700000000000 0 21000 (Some 131425000000) IOC False None 0
                    (Some \<lparr>hf_metric = RatioBps, hf_min = - 5\<rparr>),
         mode = HlWindow 128, expiresUnix = 1700000060, maxFeeQuote = 1000000,
         relayer = Some (replicate 32 3), nonce = 5\<rparr> = Inr bytes
     \<and> decodePermitEnvelope bytes =
        Inr \<lparr>domain = \<lparr>programId = replicate 32 7, version = 1, cluster = Devnet\<rparr>,
         authorizer = replicate 32 9, keyType = Ed25519,
         action = Place 64 1700000000000 0 21000 (Some 131425000000) IOC False None 0
                    (Some \<lparr>hf_metric = RatioBps, hf_min = - 5\<rparr>),
         mode = HlWindow 128, expiresUnix = 1700000060, maxFeeQuote = 1000000,
         relayer = Some (replicate 32 3), nonce = 5\<rparr>"
  by (rule decode_encode_roundtrip)
     (simp add: valid_envelope_def valid_order_tail_def valid_hf_def is_u8_def is_u_def is_s_def)


section \<open>The adapter's conversions\<close>

subsection \<open>\<open>decimalToFixed\<close> truncates toward zero\<close>

lemma digit_of_digit: "is_digit c \<Longrightarrow> digit_of c = Some (of_char c - 48) \<and> (of_char c :: nat) - 48 < 10"
  by (auto simp: is_digit_def digit_of_def)

lemma parse_radix_digits:
  "\<forall>c\<in>set s. is_digit c \<Longrightarrow>
   parse_radix 10 acc s = Some (foldl (\<lambda>a c. 10 * a + (of_char c - 48)) acc s)"
  by (induction s arbitrary: acc) (auto simp: digit_of_digit)

lemma digit_not_ws: "is_digit c \<Longrightarrow> \<not> is_ws c"
  by (auto simp: is_digit_def is_ws_def)

lemma trim_digits: "\<forall>c\<in>set s. is_digit c \<Longrightarrow> trim s = s"
proof (cases "s = []")
  case True then show ?thesis by (simp add: trim_def)
next
  case False
  assume d: "\<forall>c\<in>set s. is_digit c"
  have 1: "dropWhile is_ws s = s"
    using False d by (simp add: dropWhile_eq_self_iff digit_not_ws)
  have "hd (rev s) \<in> set s" using False by (simp add: hd_rev)
  then have 2: "dropWhile is_ws (rev s) = rev s"
    using False d by (simp add: dropWhile_eq_self_iff digit_not_ws)
  show ?thesis by (simp add: trim_def 1 2)
qed

lemma BigInt_str_digits:
  assumes "s \<noteq> []" "\<forall>c\<in>set s. is_digit c"
  shows "BigInt_str s = Some (int (dec_val s))"
proof -
  have hd: "is_digit (hd s)" using assms by simp
  have snd: "length s \<ge> 2 \<Longrightarrow> is_digit (s ! 1)" using assms by simp
  have t2: "take 2 s = [a, b] \<Longrightarrow> is_digit b" for a b
  proof -
    assume "take 2 s = [a, b]"
    then have "b \<in> set (take 2 s)" by simp
    then have "b \<in> set s" by (rule in_set_takeD)
    then show ?thesis using assms by simp
  qed
  have nx: "take 2 s \<noteq> [a, b]" if "\<not> is_digit b" for a b using t2 that by blast
  have np: "take 2 s \<noteq> ''0x''" "take 2 s \<noteq> ''0X''" "take 2 s \<noteq> ''0o''"
    "take 2 s \<noteq> ''0O''" "take 2 s \<noteq> ''0b''" "take 2 s \<noteq> ''0B''"
    by (rule nx, simp add: is_digit_def)+
  have hs: "hd s \<noteq> CHR ''+''" "hd s \<noteq> CHR ''-''"
    using hd by (auto simp: is_digit_def)
  show ?thesis
    using assms np hs
    by (simp add: BigInt_str_def trim_digits parse_digits_def parse_radix_digits dec_val_def)
qed

lemma foldl_dec_acc:
  "foldl (\<lambda>a c. 10 * a + (of_char c - 48)) acc s = acc * 10 ^ length s + dec_val s"
proof (induction s arbitrary: acc)
  case Nil then show ?case by (simp add: dec_val_def)
next
  case (Cons c s)
  show ?case
    using Cons.IH [of "10 * acc + (of_char c - 48)"] Cons.IH [of "of_char c - 48"]
    by (simp add: dec_val_def algebra_simps)
qed

lemma dec_val_append: "dec_val (x @ y) = dec_val x * 10 ^ length y + dec_val y"
  using foldl_dec_acc [of "dec_val x" y] by (simp add: dec_val_def)

lemma dec_val_zeros: "dec_val (replicate k (CHR ''0'')) = 0"
  by (induction k) (simp_all add: dec_val_def)

lemma dec_val_bound: "\<forall>c\<in>set s. is_digit c \<Longrightarrow> dec_val s < 10 ^ length s"
proof (induction s rule: rev_induct)
  case Nil then show ?case by (simp add: dec_val_def)
next
  case (snoc c s)
  then have "dec_val s < 10 ^ length s" and "(of_char c :: nat) - 48 < 10"
    by (auto simp: is_digit_def)
  then have "dec_val s * 10 + (of_char c - 48) < 10 ^ length s * 10" by linarith
  then show ?case by (simp add: dec_val_append dec_val_def)
qed

lemma dec_val_dropWhile_zero: "dec_val (dropWhile (\<lambda>c. c = CHR ''0'') s) = dec_val s"
proof (induction s)
  case Nil then show ?case by simp
next
  case (Cons c s)
  have "dec_val (CHR ''0'' # s) = dec_val s"
    using dec_val_append [of "''0''" s] by (simp add: dec_val_def)
  with Cons show ?case by simp
qed

lemma dec_val_normalized:
  assumes "\<forall>c\<in>set f. is_digit c"
  shows "dec_val (w @ take d (f @ replicate d (CHR ''0''))) =
         dec_val (w @ f) * 10 ^ d div 10 ^ length f"
proof (cases "length f \<le> d")
  case True
  then have "take d (f @ replicate d (CHR ''0'')) = f @ replicate (d - length f) (CHR ''0'')"
    by simp
  moreover have "dec_val (w @ f) * 10 ^ d div 10 ^ length f = dec_val (w @ f) * 10 ^ (d - length f)"
  proof -
    have "(10::nat) ^ d = 10 ^ (d - length f) * 10 ^ length f"
      using True by (simp flip: power_add)
    then show ?thesis by simp
  qed
  ultimately show ?thesis
    using dec_val_append [of "w @ f" "replicate (d - length f) (CHR ''0'')"]
    by (simp add: dec_val_zeros)
next
  case False
  then have lt: "d < length f" by simp
  have tk: "take d (f @ replicate d (CHR ''0'')) = take d f" using lt by simp
  have f: "f = take d f @ drop d f" by simp
  have dv: "dec_val (w @ f) = dec_val (w @ take d f) * 10 ^ (length f - d) + dec_val (drop d f)"
    using dec_val_append [of "w @ take d f" "drop d f"] lt by simp
  have bd: "dec_val (drop d f) < 10 ^ (length f - d)"
    using dec_val_bound [of "drop d f"] assms by (auto dest: in_set_dropD)
  have pw: "(10::nat) ^ length f = 10 ^ (length f - d) * 10 ^ d"
    using lt by (simp flip: power_add)
  have "dec_val (w @ f) * 10 ^ d div 10 ^ length f = dec_val (w @ f) div 10 ^ (length f - d)"
    by (simp add: pw)
  also have "\<dots> = dec_val (w @ take d f)"
    using bd by (simp add: dv)
  finally show ?thesis using lt by (simp only: tk)
qed

lemma split_dot_dot:
  "CHR ''.'' \<notin> set w \<Longrightarrow> CHR ''.'' \<notin> set f \<Longrightarrow> split_dot (w @ CHR ''.'' # f) = (w, f)"
proof -
  assume w: "CHR ''.'' \<notin> set w" and f: "CHR ''.'' \<notin> set f"
  have 1: "takeWhile (\<lambda>c. c \<noteq> CHR ''.'') (w @ CHR ''.'' # f) = w"
    using w by (subst takeWhile_append2) auto
  have 2: "dropWhile (\<lambda>c. c \<noteq> CHR ''.'') (w @ CHR ''.'' # f) = CHR ''.'' # f"
    using w by (subst dropWhile_append2) auto
  have 3: "takeWhile (\<lambda>c. c \<noteq> CHR ''.'') f = f"
    using f by (auto simp: takeWhile_eq_all_conv)
  show ?thesis by (simp add: split_dot_def 1 2 3)
qed

lemma split_dot_nodot: "CHR ''.'' \<notin> set w \<Longrightarrow> split_dot w = (w, [])"
  by (simp add: split_dot_def takeWhile_eq_all_conv [THEN iffD2] dropWhile_eq_Nil_conv [THEN iffD2])

lemma digit_not_dot: "is_digit c \<Longrightarrow> c \<noteq> CHR ''.''"
  by (auto simp: is_digit_def)

lemma literal_value:
  assumes "\<forall>c\<in>set s. is_digit c"
  shows "BigInt_str (if dropWhile (\<lambda>c. c = CHR ''0'') s = [] then ''0''
                     else dropWhile (\<lambda>c. c = CHR ''0'') s) = Some (int (dec_val s))"
proof (cases "dropWhile (\<lambda>c. c = CHR ''0'') s = []")
  case True
  have "dec_val s = dec_val (dropWhile (\<lambda>c. c = CHR ''0'') s)"
    by (simp only: dec_val_dropWhile_zero)
  also have "\<dots> = 0" by (simp only: True) (simp add: dec_val_def)
  finally have z: "dec_val s = 0" .
  have "BigInt_str ''0'' = Some (int (dec_val ''0''))"
    by (rule BigInt_str_digits) (simp_all add: is_digit_def)
  then have "BigInt_str ''0'' = Some 0" by (simp add: dec_val_def)
  then show ?thesis by (simp only: True z if_True) simp
next
  case False
  have "\<forall>c\<in>set (dropWhile (\<lambda>c. c = CHR ''0'') s). is_digit c"
    using assms by (auto dest: set_dropWhileD)
  from BigInt_str_digits [OF False this] show ?thesis
    by (simp only: False if_False dec_val_dropWhile_zero)
qed

lemma decimalToFixed_parts:
  assumes "\<forall>c\<in>set w. is_digit c" "\<forall>c\<in>set f. is_digit c"
    and "split_dot u = (w, f)"
    and "stringValue = u \<and> \<not> neg \<and> \<not> startsWith u (CHR ''-'') \<and> \<not> startsWith u (CHR ''+'')
       \<or> stringValue = CHR ''+'' # u \<and> \<not> neg \<or> stringValue = CHR ''-'' # u \<and> neg"
  shows "decimalToFixed stringValue d =
         Inr ((if neg then - 1 else 1) * int (dec_val (w @ f) * 10 ^ d div 10 ^ length f))"
proof -
  have dg: "\<forall>c\<in>set (w @ take d (f @ replicate d (CHR ''0''))). is_digit c"
    using assms(1,2) by (auto simp: is_digit_def dest!: in_set_takeD)
  have un: "(if startsWith stringValue (CHR ''-'') \<or> startsWith stringValue (CHR ''+'')
             then drop 1 stringValue else stringValue) = u"
    and un': "(if neg \<or> startsWith stringValue (CHR ''+'')
             then drop 1 stringValue else stringValue) = u"
    and ng: "startsWith stringValue (CHR ''-'') = neg"
    using assms(4) by (auto simp: startsWith_def)
  show ?thesis
    apply (simp only: decimalToFixed_def Let_def un un' ng assms(3) prod.case)
    apply (simp only: literal_value [OF dg] dec_val_normalized [OF assms(2)] option.case)
    apply simp
    done
qed

lemma toward_zero_scaled:
  "toward_zero (exact_scaled neg w f d) =
   (if neg then - 1 else 1) * int (dec_val (w @ f) * 10 ^ d div 10 ^ length f)"
proof -
  define x :: rat where "x = of_nat (dec_val (w @ f) * 10 ^ d) / of_nat (10 ^ length f)"
  have e: "exact_scaled True w f d = - x" "exact_scaled False w f d = x"
    by (simp_all add: exact_scaled_def x_def)
  have fl: "\<lfloor>x\<rfloor> = int (dec_val (w @ f) * 10 ^ d div 10 ^ length f)"
    unfolding x_def by (rule floor_divide_of_nat_eq)
  have nn: "0 \<le> x" unfolding x_def by simp
  show ?thesis
  proof (cases "neg \<and> x \<noteq> 0")
    case True
    then have "- x < 0" using nn by linarith
    then show ?thesis using True by (simp add: e toward_zero_def fl)
  next
    case False
    then consider "\<not> neg" | "neg" "x = 0" by blast
    then show ?thesis
    proof cases
      case 1
      then show ?thesis using nn by (simp add: e toward_zero_def fl)
    next
      case 2
      then have "int (dec_val (w @ f) * 10 ^ d div 10 ^ length f) = 0" using fl by simp
      then show ?thesis using 2 by (simp add: e toward_zero_def)
    qed
  qed
qed

text \<open>
  Claim C4, as amended. \<open>decimalToFixed("131425", 6) = 131425000000\<close>,
  \<open>decimalToFixed("0.00021", 8) = 21000\<close> and \<open>decimalToFixed("-1.5", 2) = -150\<close>.
  For every decimal string (an optional sign, digits, and optionally a dot and digits)
  and every decimals count \<open>d\<close>, the result is the exact value scaled by \<open>10 ^ d\<close> and
  truncated toward zero: the sign is kept and the magnitude never exceeds the exact
  magnitude. (For a negative value the result is therefore not below the exact value.)
\<close>

theorem decimalToFixed_truncates:
  assumes "sg = [] \<or> sg = ''+'' \<or> sg = ''-''"
    and "\<forall>c\<in>set w. is_digit c" and "\<forall>c\<in>set f. is_digit c"
  shows "decimalToFixed (sg @ w @ CHR ''.'' # f) d = Inr (toward_zero (exact_scaled (sg = ''-'') w f d))
       \<and> decimalToFixed (sg @ w) d = Inr (toward_zero (exact_scaled (sg = ''-'') w [] d))
       \<and> \<bar>of_int (toward_zero (exact_scaled (sg = ''-'') w f d))\<bar> \<le> \<bar>exact_scaled (sg = ''-'') w f d\<bar>
       \<and> decimalToFixed ''131425'' 6 = Inr 131425000000
       \<and> decimalToFixed ''0.00021'' 8 = Inr 21000
       \<and> decimalToFixed ''-1.5'' 2 = Inr (- 150)"
proof -
  have nd: "CHR ''.'' \<notin> set w" "CHR ''.'' \<notin> set f"
    using assms(2,3) digit_not_dot by blast+
  have nws: "\<not> startsWith (w @ x) (CHR ''-'')" "\<not> startsWith (w @ x) (CHR ''+'')" if "x = [] \<or> hd x = CHR ''.''" for x
    using assms(2) that by (cases w; cases x; auto simp: startsWith_def is_digit_def)+
  have 1: "decimalToFixed (sg @ w @ CHR ''.'' # f) d =
      Inr ((if sg = ''-'' then - 1 else 1) * int (dec_val (w @ f) * 10 ^ d div 10 ^ length f))"
    apply (rule decimalToFixed_parts [OF assms(2,3) split_dot_dot [OF nd]])
    using assms(1) nws [of "CHR ''.'' # f"] by auto
  have 2: "decimalToFixed (sg @ w) d =
      Inr ((if sg = ''-'' then - 1 else 1) * int (dec_val (w @ []) * 10 ^ d div 10 ^ length ([]::string)))"
    apply (rule decimalToFixed_parts [OF assms(2) _ split_dot_nodot [OF nd(1)]])
    using assms(1) nws [of "[]"] by auto
  have 3: "\<bar>of_int (toward_zero x)\<bar> \<le> \<bar>x\<bar>" for x :: rat
    by (simp add: toward_zero_def)
  have 4: "decimalToFixed ''131425'' 6 = Inr 131425000000"
    using decimalToFixed_parts [of "''131425''" "[]" "''131425''" "''131425''" False 6]
    by (simp add: split_dot_def startsWith_def is_digit_def dec_val_def)
  have 5: "decimalToFixed ''0.00021'' 8 = Inr 21000"
    using decimalToFixed_parts [of "''0''" "''00021''" "''0.00021''" "''0.00021''" False 8]
    by (simp add: split_dot_def startsWith_def is_digit_def dec_val_def)
  have 6: "decimalToFixed ''-1.5'' 2 = Inr (- 150)"
    using decimalToFixed_parts [of "''1''" "''5''" "''1.5''" "''-1.5''" True 2]
    by (simp add: split_dot_def startsWith_def is_digit_def dec_val_def)
  have a1: "decimalToFixed (sg @ w @ CHR ''.'' # f) d =
      Inr (toward_zero (exact_scaled (sg = ''-'') w f d))"
    using 1 by (simp only: toward_zero_scaled)
  have a2: "decimalToFixed (sg @ w) d = Inr (toward_zero (exact_scaled (sg = ''-'') w [] d))"
    using 2 by (simp only: toward_zero_scaled)
  show ?thesis
    using a1 a2 3 [of "exact_scaled (sg = ''-'') w f d"] 4 5 6 by blast
qed

theorem decimalToFixed_truncates_witness:
  "decimalToFixed ''-1.559'' 2 = Inr (toward_zero (exact_scaled True ''1'' ''559'' 2))
   \<and> toward_zero (exact_scaled True ''1'' ''559'' 2) = - 155"
  using decimalToFixed_truncates [of "''-''" "''1''" "''559''" 2]
  by (simp add: is_digit_def toward_zero_scaled dec_val_def)

text \<open>
  The claim as stated says that the result never exceeds the exact scaled value. For
  \<open>"-1.559"\<close> at 2 decimals the exact scaled value is \<open>-155.9\<close> and the code returns
  \<open>-155\<close>, which is greater.
\<close>

theorem decimalToFixed_exceeds_exact_counterexample:
  "decimalToFixed ''-1.559'' 2 = Inr (- 155)
   \<and> exact_scaled True ''1'' ''559'' 2 = - (1559 / 10)
   \<and> \<not> (of_int (- 155) \<le> exact_scaled True ''1'' ''559'' 2)"
proof -
  have "decimalToFixed ''-1.559'' 2 = Inr (- 155)"
    using decimalToFixed_parts [of "''1''" "''559''" "''1.559''" "''-1.559''" True 2]
    by (simp add: split_dot_def startsWith_def is_digit_def dec_val_def)
  moreover have "exact_scaled True ''1'' ''559'' 2 = - (1559 / 10)"
    by (simp add: exact_scaled_def dec_val_def)
  ultimately show ?thesis by simp
qed

subsection \<open>\<open>toTimeInForceValue\<close> accepts six spellings\<close>

lemma lower_six:
  "toLowerCase ''Gtc'' = ''gtc''" "toLowerCase ''GTC'' = ''gtc''"
  "toLowerCase ''Ioc'' = ''ioc''" "toLowerCase ''IOC'' = ''ioc''"
  "toLowerCase ''Alo'' = ''alo''" "toLowerCase ''ALO'' = ''alo''"
  by code_simp+

text \<open>
  Claim C5, as amended. \<open>toTimeInForceValue\<close> returns GTC exactly on \<open>"Gtc"\<close> and
  \<open>"GTC"\<close>, IOC exactly on \<open>"Ioc"\<close> and \<open>"IOC"\<close>, ALO exactly on \<open>"Alo"\<close> and
  \<open>"ALO"\<close>; on every other string, in whatever case, it fails with
  \<open>UnsupportedTimeInForce\<close>. Whenever it succeeds, the result is the one the
  lower-cased string names.
\<close>

theorem toTimeInForceValue_spellings:
  "(toTimeInForceValue s = Inr GTC) = (s = ''Gtc'' \<or> s = ''GTC'')
   \<and> (toTimeInForceValue s = Inr IOC) = (s = ''Ioc'' \<or> s = ''IOC'')
   \<and> (toTimeInForceValue s = Inr ALO) = (s = ''Alo'' \<or> s = ''ALO'')
   \<and> (toTimeInForceValue s = Inl (UnsupportedTimeInForce s)) =
       (s \<noteq> ''Gtc'' \<and> s \<noteq> ''GTC'' \<and> s \<noteq> ''Ioc'' \<and> s \<noteq> ''IOC'' \<and> s \<noteq> ''Alo'' \<and> s \<noteq> ''ALO'')
   \<and> (case toTimeInForceValue s of
         Inr GTC \<Rightarrow> toLowerCase s = ''gtc''
       | Inr IOC \<Rightarrow> toLowerCase s = ''ioc''
       | Inr ALO \<Rightarrow> toLowerCase s = ''alo''
       | Inr _ \<Rightarrow> False
       | Inl e \<Rightarrow> e = UnsupportedTimeInForce s)"
  by (auto simp: toTimeInForceValue_def lower_six)

text \<open>
  The claim as stated makes the mapping case-insensitive. The string \<open>"gtc"\<close> is its
  own lower-case form, and the code rejects it.
\<close>

theorem toTimeInForceValue_lowercase_counterexample:
  "toLowerCase ''gtc'' = ''gtc''
   \<and> toTimeInForceValue ''gtc'' = Inl (UnsupportedTimeInForce ''gtc'')"
proof -
  have "toLowerCase ''gtc'' = ''gtc''" by (simp add: toLowerCase_def)
  then show ?thesis by (simp add: toTimeInForceValue_def)
qed


section \<open>The adapter\<close>

subsection \<open>Running the code on the example order\<close>

lemma resolve_example: "resolveMarket (Some (Num 0)) example_context = Inr example_market"
  by (simp add: resolveMarket_def example_context_def)

lemma fixed_examples:
  "decimalToFixed ''131425'' 6 = Inr 131425000000"
  "decimalToFixed ''0.00021'' 8 = Inr 21000"
proof -
  show "decimalToFixed ''131425'' 6 = Inr 131425000000"
    using decimalToFixed_parts [of "''131425''" "[]" "''131425''" "''131425''" False 6]
    by (simp add: split_dot_def startsWith_def is_digit_def dec_val_def)
  show "decimalToFixed ''0.00021'' 8 = Inr 21000"
    using decimalToFixed_parts [of "''0''" "''00021''" "''0.00021''" "''0.00021''" False 8]
    by (simp add: split_dot_def startsWith_def is_digit_def dec_val_def)
qed

lemma ensure_numeric:
  "c \<noteq> [] \<Longrightarrow> BigInt_str c = Some n \<Longrightarrow> or_c order' = Some c \<Longrightarrow>
   ensureClientId order' clk = (Inr n, order', clk)"
  by (simp add: ensureClientId_def parseClientId_def)

lemma place_example:
  "c \<noteq> [] \<Longrightarrow> BigInt_str c = Some n \<Longrightarrow>
   buildPlaceAction (example_order (Some c)) example_market clk =
     (Inr (Place 64 n 0 21000 (Some 131425000000) IOC False None 0 None),
      example_order (Some c), clk)"
proof -
  assume c: "c \<noteq> []" "BigInt_str c = Some n"
  have "ensureClientId (example_order (Some c)) clk = (Inr n, example_order (Some c), clk)"
    by (rule ensure_numeric [OF c]) (simp add: example_order_def)
  then show ?thesis
    by (simp add: buildPlaceAction_def)
       (simp add: example_order_def example_market_def fixed_examples bind_result_def
          toTimeInForceValue_def orderTif_def)
qed

lemma BigInt_str_123:
  "BigInt_str ''1'' = Some 1" "BigInt_str ''2'' = Some 2" "BigInt_str ''3'' = Some 3"
  using BigInt_str_digits [of "''1''"] BigInt_str_digits [of "''2''"] BigInt_str_digits [of "''3''"]
  by (simp_all add: is_digit_def dec_val_def)

lemma toString_example: "toString 1700000000000 = ''1700000000000''"
  by (simp add: toString_def)

lemma BigInt_str_example: "BigInt_str ''1700000000000'' = Some 1700000000000"
  using BigInt_str_digits [of "''1700000000000''"]
  by (simp add: is_digit_def dec_val_def)

lemma ensure_example:
  "ensureClientId (example_order None) (sconst 1700000000000) =
     (Inr 1700000000000, example_order (Some ''1700000000000''), sconst 1700000000000)"
  by (simp add: ensureClientId_def example_order_def Date_now_def toString_example
        parseClientId_def BigInt_str_example)

subsection \<open>Batch nonces\<close>

lemma cons_result_Inr: "cons_result x r = Inr ys \<Longrightarrow> \<exists>xs. r = Inr xs \<and> ys = x # xs"
  by (cases r) (auto simp: cons_result_def)

lemma bind_result_Inr: "bind_result r f = Inr y \<Longrightarrow> \<exists>x. r = Inr x \<and> f x = Inr y"
  by (cases r) (auto simp: bind_result_def)

lemma cancel_each_nonces:
  "cancel_each ctx N idx xs = Inr infos \<Longrightarrow>
   map info_nonce infos = map (\<lambda>i. N + int i) [idx..<idx + length xs]"
proof (induction xs arbitrary: idx infos)
  case Nil then show ?case by simp
next
  case (Cons x xs)
  from Cons.prems have "\<exists>act rest. cancel_each ctx N (Suc idx) xs = Inr rest
      \<and> infos = add N act idx # rest"
    by (auto dest!: bind_result_Inr cons_result_Inr)
  then obtain act rest where
    r: "cancel_each ctx N (Suc idx) xs = Inr rest"
    and i: "infos = add N act idx # rest"
    by blast
  show ?case
    using Cons.IH [OF r] by (simp add: i add_def upt_rec)
qed

lemma cancelByCloid_each_nonces:
  "cancelByCloid_each ctx N idx xs = Inr infos \<Longrightarrow>
   map info_nonce infos = map (\<lambda>i. N + int i) [idx..<idx + length xs]"
proof (induction xs arbitrary: idx infos)
  case Nil then show ?case by simp
next
  case (Cons x xs)
  from Cons.prems have "\<exists>act rest. cancelByCloid_each ctx N (Suc idx) xs = Inr rest
      \<and> infos = add N act idx # rest"
    by (auto dest!: bind_result_Inr cons_result_Inr split: if_splits)
  then obtain act rest where
    r: "cancelByCloid_each ctx N (Suc idx) xs = Inr rest"
    and i: "infos = add N act idx # rest"
    by blast
  show ?case
    using Cons.IH [OF r] by (simp add: i add_def upt_rec)
qed

lemma batchOrder_each_nonces:
  "batchOrder_each ctx N idx xs clk = (Inr infos, xs', clk') \<Longrightarrow>
   map info_nonce infos = map (\<lambda>i. N + int i) [idx..<idx + length xs]"
proof (induction xs arbitrary: idx infos clk xs' clk')
  case Nil then show ?case by simp
next
  case (Cons x xs)
  from Cons.prems have "\<exists>act rest c1 ys c2.
      batchOrder_each ctx N (Suc idx) xs c1 = (Inr rest, ys, c2) \<and> infos = add N act idx # rest"
    by (auto split: sum.splits prod.splits dest!: cons_result_Inr) blast+
  then obtain act rest c1 ys c2 where
    r: "batchOrder_each ctx N (Suc idx) xs c1 = (Inr rest, ys, c2)"
    and i: "infos = add N act idx # rest"
    by blast
  show ?case
    using Cons.IH [OF r] by (simp add: i add_def upt_rec)
qed

lemma modifyBatch_each_nonces:
  "modifyBatch_each ctx N idx xs clk = (Inr infos, xs', clk') \<Longrightarrow>
   map info_nonce infos = map (\<lambda>i. N + int i) [idx..<idx + length xs]"
proof (induction xs arbitrary: idx infos clk xs' clk')
  case Nil then show ?case by simp
next
  case (Cons x xs)
  from Cons.prems have "\<exists>act rest c1 ys c2.
      modifyBatch_each ctx N (Suc idx) xs c1 = (Inr rest, ys, c2) \<and> infos = add N act idx # rest"
    by (auto split: sum.splits prod.splits dest!: cons_result_Inr) blast+
  then obtain act rest c1 ys c2 where
    r: "modifyBatch_each ctx N (Suc idx) xs c1 = (Inr rest, ys, c2)"
    and i: "infos = add N act idx # rest"
    by blast
  show ?case
    using Cons.IH [OF r] by (simp add: i add_def upt_rec)
qed

lemma envelopes_map_nonces:
  "envelopes_map ctx infos clk = (envs, clk') \<Longrightarrow> map nonce envs = map info_nonce infos"
  by (induction infos arbitrary: clk envs clk')
     (auto simp: Date_now_def envelopeOf_def Let_def split: prod.splits)

lemma build_Inr:
  "buildPermitEnvelopesFromExchangeRequest rt req ctx clk = (Inr envs, req', clk') \<Longrightarrow>
   \<exists>infos c1. buildPermitActions rt req ctx clk = (Inr infos, req', c1)
     \<and> envelopes_map ctx infos c1 = (envs, clk')"
  by (auto simp: buildPermitEnvelopesFromExchangeRequest_def split: prod.splits sum.splits)

lemma bpa_cancel:
  "ea_type (rq_action req) = ''cancel'' \<Longrightarrow>
   buildPermitActions rt req ctx clk =
     (cancel_each ctx (rq_nonce req) 0
        (case ea_cancels (rq_action req) of None \<Rightarrow> [] | Some cs \<Rightarrow> cs), req, clk)"
  by (simp add: buildPermitActions_def Let_def)

lemma bpa_cancelByCloid:
  "ea_type (rq_action req) = ''cancelByCloid'' \<Longrightarrow>
   buildPermitActions rt req ctx clk =
     (cancelByCloid_each ctx (rq_nonce req) 0
        (case ea_cancels (rq_action req) of None \<Rightarrow> [] | Some cs \<Rightarrow> cs), req, clk)"
  by (simp add: buildPermitActions_def Let_def)

lemma bpa_batchOrder:
  "ea_type (rq_action req) = ''batchOrder'' \<Longrightarrow>
   buildPermitActions rt req ctx clk =
     (case ea_orders (rq_action req) of
        None \<Rightarrow> (Inr [], req, clk)
      | Some orders \<Rightarrow>
          (case batchOrder_each ctx (rq_nonce req) 0 orders clk of
             (r, orders', clk') \<Rightarrow>
               (r, req\<lparr>rq_action := (rq_action req)\<lparr>ea_orders := Some orders'\<rparr>\<rparr>, clk')))"
  by (simp add: buildPermitActions_def Let_def)

lemma bpa_modifyBatch:
  "ea_type (rq_action req) = ''modifyBatch'' \<Longrightarrow>
   buildPermitActions rt req ctx clk =
     (case ea_modifies (rq_action req) of
        None \<Rightarrow> (Inr [], req, clk)
      | Some modifies \<Rightarrow>
          (case modifyBatch_each ctx (rq_nonce req) 0 modifies clk of
             (r, modifies', clk') \<Rightarrow>
               (r, req\<lparr>rq_action := (rq_action req)\<lparr>ea_modifies := Some modifies'\<rparr>\<rparr>, clk')))"
  by (simp add: buildPermitActions_def Let_def)

lemma batch_actions_nonces:
  assumes "ea_type (rq_action req) = ''batchOrder'' \<or> ea_type (rq_action req) = ''cancel''
         \<or> ea_type (rq_action req) = ''cancelByCloid'' \<or> ea_type (rq_action req) = ''modifyBatch''"
    and "buildPermitActions rt req ctx clk = (Inr infos, req', c1)"
  shows "map info_nonce infos =
         map (\<lambda>i. rq_nonce req + int i) [0..<subitems (rq_action req)]"
proof -
  consider (b) "ea_type (rq_action req) = ''batchOrder''"
    | (c) "ea_type (rq_action req) = ''cancel''"
    | (cc) "ea_type (rq_action req) = ''cancelByCloid''"
    | (m) "ea_type (rq_action req) = ''modifyBatch''"
    using assms(1) by blast
  then show ?thesis
  proof cases
    case b
    show ?thesis
    proof (cases "ea_orders (rq_action req)")
      case None
      then show ?thesis using assms(2) b by (simp add: bpa_batchOrder subitems_def)
    next
      case (Some orders)
      then obtain xs' where "batchOrder_each ctx (rq_nonce req) 0 orders clk = (Inr infos, xs', c1)"
        using assms(2) b by (auto simp: bpa_batchOrder split: prod.splits)
      from batchOrder_each_nonces [OF this] show ?thesis
        using b Some by (simp add: subitems_def)
    qed
  next
    case c
    then have "cancel_each ctx (rq_nonce req) 0
        (case ea_cancels (rq_action req) of None \<Rightarrow> [] | Some cs \<Rightarrow> cs) = Inr infos"
      using assms(2) by (auto simp: bpa_cancel)
    from cancel_each_nonces [OF this] show ?thesis
      using c by (simp add: subitems_def split: option.splits)
  next
    case cc
    then have "cancelByCloid_each ctx (rq_nonce req) 0
        (case ea_cancels (rq_action req) of None \<Rightarrow> [] | Some cs \<Rightarrow> cs) = Inr infos"
      using assms(2) by (auto simp: bpa_cancelByCloid)
    from cancelByCloid_each_nonces [OF this] show ?thesis
      using cc by (simp add: subitems_def split: option.splits)
  next
    case m
    show ?thesis
    proof (cases "ea_modifies (rq_action req)")
      case None
      then show ?thesis using assms(2) m by (simp add: bpa_modifyBatch subitems_def)
    next
      case (Some modifies)
      then obtain xs' where "modifyBatch_each ctx (rq_nonce req) 0 modifies clk = (Inr infos, xs', c1)"
        using assms(2) m by (auto simp: bpa_modifyBatch split: prod.splits)
      from modifyBatch_each_nonces [OF this] show ?thesis
        using m Some by (simp add: subitems_def)
    qed
  qed
qed

lemma succeedsE: "succeeds r \<Longrightarrow> \<exists>x. r = Inr x"
  by (cases r) (simp_all add: succeeds_def)

lemma trim_id: "s \<noteq> [] \<Longrightarrow> \<not> is_ws (hd s) \<Longrightarrow> \<not> is_ws (last s) \<Longrightarrow> trim s = s"
proof -
  assume s: "s \<noteq> []" "\<not> is_ws (hd s)" "\<not> is_ws (last s)"
  have 1: "dropWhile is_ws s = s" using s by (simp add: dropWhile_eq_self_iff)
  have 2: "dropWhile is_ws (rev s) = rev s" using s by (simp add: dropWhile_eq_self_iff hd_rev)
  show ?thesis by (simp add: trim_def 1 2)
qed

lemma hex_chars: "list_all (\<lambda>k. hexd (''0123456789abcdef'' ! k)) [0..<16]"
  by code_simp

lemma hex_char: "k < 16 \<Longrightarrow> hexd (''0123456789abcdef'' ! k)"
proof -
  assume "k < 16"
  then have "k \<in> set [0..<16]" by simp
  with hex_chars show ?thesis unfolding list_all_iff by blast
qed

lemma hexd_not_ws: "hexd c \<Longrightarrow> \<not> is_ws c"
  by (auto simp: hexd_def is_ws_def digit_of_def)

lemma hex_of_string_hexd: "\<forall>c\<in>set (hex_of_string s). hexd c"
proof -
  have "(of_char c :: nat) div 16 < 16" "(of_char c :: nat) mod 16 < 16" for c :: char
  proof -
    have "(of_char c :: nat) mod 256 < 256" by simp
    then have "(of_char c :: nat) < 256" by (simp only: of_char_mod_256)
    then show "(of_char c :: nat) div 16 < 16" by arith
    show "(of_char c :: nat) mod 16 < 16" by simp
  qed
  then show ?thesis
    by (auto simp: hex_of_string_def intro!: hex_char)
qed

lemma parse_radix_hex: "\<forall>c\<in>set h. hexd c \<Longrightarrow> \<exists>n. parse_radix 16 acc h = Some n"
  by (induction h arbitrary: acc) (auto simp: hexd_def split: option.splits)

lemma BigInt_str_hex: "c \<noteq> [] \<Longrightarrow> \<exists>n. BigInt_str (''0x'' @ hex_of_string c) = Some n"
proof -
  assume c: "c \<noteq> []"
  let ?h = "hex_of_string c"
  have ne: "?h \<noteq> []" using c by (cases c) (simp_all add: hex_of_string_def)
  have hx: "\<forall>x\<in>set ?h. hexd x" by (rule hex_of_string_hexd)
  have "\<not> is_ws (last ?h)" using ne hx hexd_not_ws by (meson last_in_set)
  then have "trim (''0x'' @ ?h) = ''0x'' @ ?h"
    using ne by (intro trim_id) (simp_all add: is_ws_def)
  then have t: "trim (CHR ''0'' # CHR ''x'' # ?h) = CHR ''0'' # CHR ''x'' # ?h" by simp
  obtain n where "parse_radix 16 0 ?h = Some n" using parse_radix_hex [OF hx] by blast
  then show ?thesis using ne by (simp add: BigInt_str_def Let_def t parse_digits_def)
qed

lemma digits_of_nonempty: "digits_of n \<noteq> []"
  by (subst digits_of.simps) simp

lemma parseClientId_succeeds:
  "c \<noteq> [] \<Longrightarrow> \<exists>n order''. parseClientId order' c = (Inr n, order'')"
  using BigInt_str_hex [of c]
  by (cases "BigInt_str c") (auto simp: parseClientId_def)

lemma ensureClientId_succeeds:
  "\<exists>n order'' clk'. ensureClientId order' clk = (Inr n, order'', clk')"
proof (cases "or_c order' = None \<or> or_c order' = Some []")
  case True
  have "toString (shd clk) \<noteq> []" by (simp add: toString_def digits_of_nonempty)
  from parseClientId_succeeds [OF this] obtain n o2 where
    "parseClientId (order'\<lparr>or_c := Some (toString (shd clk))\<rparr>) (toString (shd clk)) = (Inr n, o2)"
    by blast
  then show ?thesis using True by (simp add: ensureClientId_def Date_now_def)
next
  case False
  then obtain c where c: "or_c order' = Some c" "c \<noteq> []" by auto
  from parseClientId_succeeds [OF c(2)] obtain n o2 where
    "parseClientId order' c = (Inr n, o2)" by blast
  then show ?thesis using c by (simp add: ensureClientId_def)
qed

lemma parseClientId_fields:
  "parseClientId order' c = (r, order'') \<Longrightarrow>
   or_p order'' = or_p order' \<and> or_s order'' = or_s order' \<and> or_tif order'' = or_tif order'"
  by (auto simp: parseClientId_def split: option.splits)

lemma ensureClientId_fields:
  assumes e: "ensureClientId order' clk = (r, order'', clk')"
  shows "or_p order'' = or_p order' \<and> or_s order'' = or_s order' \<and> or_tif order'' = or_tif order'"
proof (cases "or_c order' = None \<or> or_c order' = Some []")
  case True
  then have "parseClientId (order'\<lparr>or_c := Some (toString (shd clk))\<rparr>) (toString (shd clk))
      = (r, order'')"
    using e by (simp add: ensureClientId_def Date_now_def split: prod.splits)
  from parseClientId_fields [OF this] show ?thesis by simp
next
  case False
  then have "parseClientId order' (case or_c order' of Some c \<Rightarrow> c | None \<Rightarrow> []) = (r, order'')"
    using e by (auto simp: ensureClientId_def Let_def split: prod.splits if_splits)
  from parseClientId_fields [OF this] show ?thesis .
qed

lemma buildPlaceAction_succeeds:
  assumes m: "resolveMarket (or_a order') ctx = Inr market" and ok: "order_ok ctx order'"
  shows "\<exists>act order'' clk'. buildPlaceAction order' market clk = (Inr act, order'', clk')"
proof -
  obtain n o2 c2 where e: "ensureClientId order' clk = (Inr n, o2, c2)"
    using ensureClientId_succeeds by blast
  have f: "or_p o2 = or_p order'" "or_s o2 = or_s order'" "orderTif o2 = orderTif order'"
    using ensureClientId_fields [OF e] by (simp_all add: orderTif_def)
  from ok m obtain p s t where
    "decimalToFixed (or_p order') (mc_quoteDecimals market) = Inr p"
    "decimalToFixed (or_s order') (mc_baseDecimals market) = Inr s"
    "toTimeInForceValue (orderTif order') = Inr t"
    by (auto simp: order_ok_def dest!: succeedsE)
  then show ?thesis by (simp add: buildPlaceAction_def e f bind_result_def)
qed

lemma buildModifyAction_succeeds:
  assumes m: "resolveMarket (or_a (mr_order modify)) ctx = Inr market"
    and ok: "modify_ok ctx modify"
  shows "\<exists>act modify' clk'. buildModifyAction modify market clk = (Inr act, modify', clk')"
proof -
  obtain n o2 c2 where e: "ensureClientId (mr_order modify) clk = (Inr n, o2, c2)"
    using ensureClientId_succeeds by blast
  have f: "or_p o2 = or_p (mr_order modify)" "or_s o2 = or_s (mr_order modify)"
      "orderTif o2 = orderTif (mr_order modify)"
    using ensureClientId_fields [OF e] by (simp_all add: orderTif_def)
  from ok m obtain p s t i where
    "decimalToFixed (or_p (mr_order modify)) (mc_quoteDecimals market) = Inr p"
    "decimalToFixed (or_s (mr_order modify)) (mc_baseDecimals market) = Inr s"
    "toTimeInForceValue (orderTif (mr_order modify)) = Inr t"
    "BigInt (mr_oid modify) = Inr i"
    by (auto simp: modify_ok_def order_ok_def dest!: succeedsE)
  then show ?thesis by (simp add: buildModifyAction_def e f bind_result_def)
qed

lemma order_ok_market: "order_ok ctx order' \<Longrightarrow> \<exists>market. resolveMarket (or_a order') ctx = Inr market"
  by (cases "resolveMarket (or_a order') ctx") (simp_all add: order_ok_def)

lemma batchOrder_each_succeeds:
  "list_all (order_ok ctx) xs \<Longrightarrow>
   \<exists>infos xs' clk'. batchOrder_each ctx N idx xs clk = (Inr infos, xs', clk')"
proof (induction xs arbitrary: idx clk)
  case Nil then show ?case by simp
next
  case (Cons x xs)
  from Cons.prems have ok: "order_ok ctx x" and rest: "list_all (order_ok ctx) xs" by simp_all
  from order_ok_market [OF ok] obtain market where m: "resolveMarket (or_a x) ctx = Inr market"
    by blast
  from buildPlaceAction_succeeds [OF m ok] obtain act x' c1 where
    b: "buildPlaceAction x market clk = (Inr act, x', c1)" by blast
  from Cons.IH [OF rest] obtain infos xs' c2 where
    r: "batchOrder_each ctx N (Suc idx) xs c1 = (Inr infos, xs', c2)" by blast
  show ?case by (simp add: m b r cons_result_def)
qed

lemma modifyBatch_each_succeeds:
  "list_all (modify_ok ctx) xs \<Longrightarrow>
   \<exists>infos xs' clk'. modifyBatch_each ctx N idx xs clk = (Inr infos, xs', clk')"
proof (induction xs arbitrary: idx clk)
  case Nil then show ?case by simp
next
  case (Cons x xs)
  from Cons.prems have ok: "modify_ok ctx x" and rest: "list_all (modify_ok ctx) xs" by simp_all
  from ok have "order_ok ctx (mr_order x)" by (simp add: modify_ok_def)
  from order_ok_market [OF this] obtain market where
    m: "resolveMarket (or_a (mr_order x)) ctx = Inr market" by blast
  from buildModifyAction_succeeds [OF m ok] obtain act x' c1 where
    b: "buildModifyAction x market clk = (Inr act, x', c1)" by blast
  from Cons.IH [OF rest] obtain infos xs' c2 where
    r: "modifyBatch_each ctx N (Suc idx) xs c1 = (Inr infos, xs', c2)" by blast
  show ?case by (simp add: m b r cons_result_def)
qed

lemma cancel_each_succeeds:
  "list_all (cancel_ok ctx) xs \<Longrightarrow> \<exists>infos. cancel_each ctx N idx xs = Inr infos"
proof (induction xs arbitrary: idx)
  case Nil then show ?case by simp
next
  case (Cons x xs)
  from Cons.prems have ok: "cancel_ok ctx x" and rest: "list_all (cancel_ok ctx) xs" by simp_all
  from ok obtain market v i where
    m: "resolveMarket (cn_a x) ctx = Inr market" "cn_o x = Some v" "BigInt v = Inr i"
    by (auto simp: cancel_ok_def split: option.splits dest!: succeedsE)
  from Cons.IH [OF rest] obtain infos where
    r: "cancel_each ctx N (Suc idx) xs = Inr infos" by blast
  show ?case by (simp add: m r cons_result_def bind_result_def)
qed

lemma cancelByCloid_each_succeeds:
  "list_all (cloid_ok ctx) xs \<Longrightarrow> \<exists>infos. cancelByCloid_each ctx N idx xs = Inr infos"
proof (induction xs arbitrary: idx)
  case Nil then show ?case by simp
next
  case (Cons x xs)
  from Cons.prems have ok: "cloid_ok ctx x" and rest: "list_all (cloid_ok ctx) xs" by simp_all
  from ok obtain market s i where
    m: "resolveMarket (cn_asset x) ctx = Inr market" "cn_cloid x = Some s" "BigInt (Str s) = Inr i"
    by (auto simp: cloid_ok_def split: option.splits dest!: succeedsE)
  from Cons.IH [OF rest] obtain infos where
    r: "cancelByCloid_each ctx N (Suc idx) xs = Inr infos" by blast
  show ?case by (simp add: m r cons_result_def bind_result_def isCancelByCloidRequest_def)
qed

lemma batch_actions_succeed:
  assumes t: "ea_type (rq_action req) = ''batchOrder'' \<or> ea_type (rq_action req) = ''cancel''
         \<or> ea_type (rq_action req) = ''cancelByCloid'' \<or> ea_type (rq_action req) = ''modifyBatch''"
    and w: "well_formed_batch ctx (rq_action req)"
  shows "\<exists>infos req' c1. buildPermitActions rt req ctx clk = (Inr infos, req', c1)"
proof -
  consider (b) "ea_type (rq_action req) = ''batchOrder''"
    | (c) "ea_type (rq_action req) = ''cancel''"
    | (cc) "ea_type (rq_action req) = ''cancelByCloid''"
    | (m) "ea_type (rq_action req) = ''modifyBatch''"
    using t by blast
  then show ?thesis
  proof cases
    case b
    show ?thesis
    proof (cases "ea_orders (rq_action req)")
      case None
      then show ?thesis by (simp add: bpa_batchOrder [OF b])
    next
      case (Some orders)
      then have "list_all (order_ok ctx) orders" using w b by (simp add: well_formed_batch_def)
      from batchOrder_each_succeeds [OF this, of "rq_nonce req" 0 clk] obtain infos xs' c1 where
        "batchOrder_each ctx (rq_nonce req) 0 orders clk = (Inr infos, xs', c1)" by blast
      then show ?thesis by (simp add: bpa_batchOrder [OF b] Some)
    qed
  next
    case c
    have "list_all (cancel_ok ctx) (case ea_cancels (rq_action req) of None \<Rightarrow> [] | Some cs \<Rightarrow> cs)"
      using w c by (simp add: well_formed_batch_def split: option.splits)
    from cancel_each_succeeds [OF this, of "rq_nonce req" 0] show ?thesis
      by (auto simp: bpa_cancel [OF c])
  next
    case cc
    have "list_all (cloid_ok ctx) (case ea_cancels (rq_action req) of None \<Rightarrow> [] | Some cs \<Rightarrow> cs)"
      using w cc by (simp add: well_formed_batch_def split: option.splits)
    from cancelByCloid_each_succeeds [OF this, of "rq_nonce req" 0] show ?thesis
      by (auto simp: bpa_cancelByCloid [OF cc])
  next
    case m
    show ?thesis
    proof (cases "ea_modifies (rq_action req)")
      case None
      then show ?thesis by (simp add: bpa_modifyBatch [OF m])
    next
      case (Some modifies)
      then have "list_all (modify_ok ctx) modifies" using w m by (simp add: well_formed_batch_def)
      from modifyBatch_each_succeeds [OF this, of "rq_nonce req" 0 clk] obtain infos xs' c1 where
        "modifyBatch_each ctx (rq_nonce req) 0 modifies clk = (Inr infos, xs', c1)" by blast
      then show ?thesis by (simp add: bpa_modifyBatch [OF m] Some)
    qed
  qed
qed

lemma build_succeeds:
  "buildPermitActions rt req ctx clk = (Inr infos, req', c1) \<Longrightarrow>
   \<exists>envs clk'. buildPermitEnvelopesFromExchangeRequest rt req ctx clk = (Inr envs, req', clk')"
  by (simp add: buildPermitEnvelopesFromExchangeRequest_def split: prod.splits)


lemma order_ok_example: "order_ok example_context (example_order c)"
  by (simp add: order_ok_def)
     (simp add: example_order_def resolve_example example_market_def fixed_examples
        succeeds_def toTimeInForceValue_def orderTif_def)

subsection \<open>Unsupported and incomplete requests\<close>

lemma bpa_other:
  "ea_type (rq_action req) \<notin> supported_types \<Longrightarrow>
   buildPermitActions rt req ctx clk = (Inr [], req, clk)"
  by (simp add: buildPermitActions_def Let_def supported_types_def)

lemma bpa_order:
  "ea_type (rq_action req) = ''order'' \<Longrightarrow>
   buildPermitActions rt req ctx clk =
     (case ea_order (rq_action req) of
        Some order' \<Rightarrow>
          (case order_case ctx (rq_nonce req) order' clk of
             (r, order'', clk') \<Rightarrow>
               (r, req\<lparr>rq_action := (rq_action req)\<lparr>ea_order := Some order''\<rparr>\<rparr>, clk'))
      | None \<Rightarrow>
          (case ea_self (rq_action req) of
             None \<Rightarrow> (Inr [], req, clk)
           | Some order' \<Rightarrow>
               (case order_case ctx (rq_nonce req) order' clk of
                  (r, order'', clk') \<Rightarrow>
                    (r, req\<lparr>rq_action := (rq_action req)\<lparr>ea_self := Some order''\<rparr>\<rparr>, clk'))))"
  by (simp add: buildPermitActions_def Let_def)

lemma bpa_modify:
  "ea_type (rq_action req) = ''modify'' \<Longrightarrow>
   buildPermitActions rt req ctx clk =
     (case ea_order (rq_action req) of
        None \<Rightarrow> (Inr [], req, clk)
      | Some order' \<Rightarrow>
          (case resolveMarket (or_a order') ctx of
             Inl e \<Rightarrow> (Inl e, req, clk)
           | Inr market \<Rightarrow>
               (case buildModifyAction
                       \<lparr>mr_oid = (case ea_oid (rq_action req) of None \<Rightarrow> Num 0 | Some v \<Rightarrow> v),
                        mr_order = order'\<rparr> market clk of
                  (r, modify', clk') \<Rightarrow>
                    (bind_result r (\<lambda>a. Inr [add (rq_nonce req) a 0]),
                     req\<lparr>rq_action := (rq_action req)\<lparr>ea_order := Some (mr_order modify')\<rparr>\<rparr>,
                     clk'))))"
  by (simp add: buildPermitActions_def Let_def)

lemma bpa_updateLeverage:
  "ea_type (rq_action req) = ''updateLeverage'' \<Longrightarrow>
   buildPermitActions rt req ctx clk =
     (if ea_asset (rq_action req) = None then (Inr [], req, clk)
      else
        (bind_result (resolveMarket (ea_asset (rq_action req)) ctx) (\<lambda>market.
           Inr [add (rq_nonce req)
                  (SetLeverage (mc_marketId market)
                     (min ((case ea_leverage (rq_action req) of None \<Rightarrow> 0 | Some l \<Rightarrow> l) * 100)
                        65535) None) 0]),
         req, clk))"
  by (simp add: buildPermitActions_def Let_def)

lemma bpa_withdraw:
  "ea_type (rq_action req) = ''withdraw'' \<Longrightarrow>
   buildPermitActions rt req ctx clk =
     (case ea_amount (rq_action req) of
        None \<Rightarrow> (Inr [], req, clk)
      | Some a \<Rightarrow>
          (bind_result (decimalToFixed (String (exponential rt) a) 6) (\<lambda>amountFixed.
             Inr [add (rq_nonce req) (Withdraw amountFixed (cx_authorizer ctx) None) 0]),
           req, clk))"
  by (simp add: buildPermitActions_def Let_def)

lemma build_of_actions:
  "buildPermitActions rt req ctx clk = (Inr infos, req', c1) \<Longrightarrow>
   buildPermitEnvelopesFromExchangeRequest rt req ctx clk =
     (Inr (fst (envelopes_map ctx infos c1)), req', snd (envelopes_map ctx infos c1))"
  by (simp add: buildPermitEnvelopesFromExchangeRequest_def split: prod.splits)

lemma bpa_lacking:
  assumes "lacks_required (rq_action req)"
  shows "buildPermitActions rt req ctx clk = (Inr [], req, clk)"
proof -
  consider (o) "ea_type (rq_action req) = ''order''"
      "case order_of (rq_action req) of None \<Rightarrow> True | Some order' \<Rightarrow> or_a order' = None"
    | (m) "ea_type (rq_action req) = ''modify''" "ea_order (rq_action req) = None"
    | (u) "ea_type (rq_action req) = ''updateLeverage''" "ea_asset (rq_action req) = None"
    | (w) "ea_type (rq_action req) = ''withdraw''" "ea_amount (rq_action req) = None"
    using assms unfolding lacks_required_def by (elim disjE conjE) simp_all
  then show ?thesis
  proof cases
    case o
    show ?thesis
    proof (cases "ea_order (rq_action req)")
      case None
      then show ?thesis
        using o by (cases "ea_self (rq_action req)")
          (simp_all add: bpa_order order_of_def order_case_def)
    next
      case (Some order')
      then have "or_a order' = None" using o(2) by (simp add: order_of_def)
      moreover have "req\<lparr>rq_action := (rq_action req)\<lparr>ea_order := Some order'\<rparr>\<rparr> = req"
        using Some by simp
      ultimately show ?thesis using o(1) Some by (simp add: bpa_order order_case_def)
    qed
  next
    case m then show ?thesis by (simp add: bpa_modify)
  next
    case u then show ?thesis by (simp add: bpa_updateLeverage)
  next
    case w then show ?thesis by (simp add: bpa_withdraw)
  qed
qed

text \<open>
  Claim C10. For a request whose action type is outside the supported set, and for an
  \<open>order\<close> request whose order has no \<open>a\<close>, a \<open>modify\<close> request without
  \<open>order\<close>, an \<open>updateLeverage\<close> request without \<open>asset\<close> and a \<open>withdraw\<close>
  request without \<open>amount\<close>, \<open>buildPermitEnvelopesFromExchangeRequest\<close> returns the
  empty list and raises no error; it leaves the request and the clock as they are.
\<close>

theorem unsupported_or_incomplete_request_yields_nothing:
  assumes "ea_type (rq_action req) \<notin> supported_types \<or> lacks_required (rq_action req)"
  shows "buildPermitEnvelopesFromExchangeRequest rt req ctx clk = (Inr [], req, clk)"
proof -
  have "buildPermitActions rt req ctx clk = (Inr [], req, clk)"
    using assms bpa_other bpa_lacking by blast
  from build_of_actions [OF this] show ?thesis by simp
qed

theorem unsupported_or_incomplete_request_yields_nothing_witness:
  "buildPermitEnvelopesFromExchangeRequest example_runtime
     \<lparr>rq_action = example_action ''approveAgent'', rq_nonce = 1000\<rparr>
     example_context (sconst 1700000000000)
   = (Inr [], \<lparr>rq_action = example_action ''approveAgent'', rq_nonce = 1000\<rparr>,
      sconst 1700000000000)
   \<and> buildPermitEnvelopesFromExchangeRequest example_runtime
     \<lparr>rq_action = (example_action ''order'')\<lparr>ea_order := Some ((example_order None)\<lparr>or_a := None\<rparr>)\<rparr>,
      rq_nonce = 1000\<rparr>
     example_context (sconst 1700000000000)
   = (Inr [],
      \<lparr>rq_action = (example_action ''order'')\<lparr>ea_order := Some ((example_order None)\<lparr>or_a := None\<rparr>)\<rparr>,
       rq_nonce = 1000\<rparr>,
      sconst 1700000000000)"
  using unsupported_or_incomplete_request_yields_nothing
      [of "\<lparr>rq_action = example_action ''approveAgent'', rq_nonce = 1000\<rparr>"
          example_runtime example_context "sconst 1700000000000"]
    unsupported_or_incomplete_request_yields_nothing
      [of "\<lparr>rq_action = (example_action ''order'')\<lparr>ea_order := Some ((example_order None)\<lparr>or_a := None\<rparr>)\<rparr>,
            rq_nonce = 1000\<rparr>"
          example_runtime example_context "sconst 1700000000000"]
  by (simp add: example_action_def supported_types_def lacks_required_def order_of_def
        example_order_def)

subsection \<open>Leverage\<close>

text \<open>
  Claim C8 fails on the code. The leverage in basis points is
  \<open>Math.min(leverage * 100, 65535)\<close>: it is bounded above only. An
  \<open>updateLeverage\<close> request with leverage \<open>-1\<close> produces a \<open>SetLeverage\<close> action
  whose \<open>targetLeverageBps\<close> is \<open>-100\<close>, outside the 16-bit unsigned range.
\<close>

theorem updateLeverage_negative_bps:
  "map_sum id (map action)
     (fst (buildPermitEnvelopesFromExchangeRequest example_runtime
        \<lparr>rq_action = (example_action ''updateLeverage'')
           \<lparr>ea_asset := Some (Num 0), ea_leverage := Some (- 1)\<rparr>,
         rq_nonce = 1000\<rparr>
        example_context (sconst 1700000000000)))
   = Inr [SetLeverage 64 (- 100) None]"
proof -
  let ?req = "\<lparr>rq_action = (example_action ''updateLeverage'')
           \<lparr>ea_asset := Some (Num 0), ea_leverage := Some (- 1)\<rparr>,
         rq_nonce = 1000\<rparr>"
  have t: "ea_type (rq_action ?req) = ''updateLeverage''" by (simp add: example_action_def)
  have "buildPermitActions example_runtime ?req example_context (sconst 1700000000000) =
        (Inr [add 1000 (SetLeverage 64 (- 100) None) 0], ?req, sconst 1700000000000)"
    by (simp only: bpa_updateLeverage [OF t])
       (simp add: example_action_def resolve_example bind_result_def example_market_def)
  from build_of_actions [OF this] show ?thesis
    by (simp add: Date_now_def envelopeOf_def add_def)
qed

subsection \<open>What the adapter writes to its request\<close>

lemma parseClientId_frame:
  "parseClientId order' c = (r, order'') \<Longrightarrow> erase_c order'' = erase_c order'"
  by (auto simp: parseClientId_def erase_c_def split: option.splits)

lemma ensureClientId_frame:
  "ensureClientId order' clk = (r, order'', clk') \<Longrightarrow> erase_c order'' = erase_c order'"
proof -
  assume e: "ensureClientId order' clk = (r, order'', clk')"
  show ?thesis
  proof (cases "or_c order' = None \<or> or_c order' = Some []")
    case True
    then have "parseClientId (order'\<lparr>or_c := Some (toString (shd clk))\<rparr>) (toString (shd clk))
        = (r, order'')"
      using e by (simp add: ensureClientId_def Date_now_def split: prod.splits)
    from parseClientId_frame [OF this] show ?thesis by (simp add: erase_c_def)
  next
    case False
    then have "parseClientId order' (case or_c order' of Some c \<Rightarrow> c | None \<Rightarrow> []) = (r, order'')"
      using e by (auto simp: ensureClientId_def Let_def split: prod.splits if_splits)
    from parseClientId_frame [OF this] show ?thesis .
  qed
qed

lemma buildPlaceAction_frame:
  "buildPlaceAction order' market clk = (r, order'', clk') \<Longrightarrow> erase_c order'' = erase_c order'"
  by (auto simp: buildPlaceAction_def split: prod.splits dest: ensureClientId_frame)

lemma buildModifyAction_frame_order:
  "buildModifyAction modify market clk = (r, modify', clk') \<Longrightarrow>
   erase_c (mr_order modify') = erase_c (mr_order modify)"
  by (auto simp: buildModifyAction_def split: prod.splits dest: ensureClientId_frame)

lemma buildModifyAction_frame:
  "buildModifyAction modify market clk = (r, modify', clk') \<Longrightarrow>
   erase_modify modify' = erase_modify modify"
  by (auto simp: buildModifyAction_def erase_modify_def split: prod.splits
      dest: ensureClientId_frame)

lemma order_case_frame:
  "order_case ctx N order' clk = (r, order'', clk') \<Longrightarrow> erase_c order'' = erase_c order'"
  by (auto simp: order_case_def split: sum.splits prod.splits if_splits
      dest: buildPlaceAction_frame)

lemma batchOrder_each_frame:
  "batchOrder_each ctx N idx xs clk = (r, xs', clk') \<Longrightarrow> map erase_c xs' = map erase_c xs"
proof (induction xs arbitrary: idx clk r xs' clk')
  case Nil then show ?case by simp
next
  case (Cons x xs)
  from Cons.prems show ?case
    by (auto split: sum.splits prod.splits dest: buildPlaceAction_frame Cons.IH)
qed

lemma modifyBatch_each_frame:
  "modifyBatch_each ctx N idx xs clk = (r, xs', clk') \<Longrightarrow>
   map erase_modify xs' = map erase_modify xs"
proof (induction xs arbitrary: idx clk r xs' clk')
  case Nil then show ?case by simp
next
  case (Cons x xs)
  from Cons.prems show ?case
    by (auto split: sum.splits prod.splits dest: buildModifyAction_frame Cons.IH)
qed

lemma bpa_faucet:
  "ea_type (rq_action req) = ''faucet'' \<Longrightarrow>
   buildPermitActions rt req ctx clk =
     (faucet_case rt ctx (rq_nonce req) (rq_action req), req, clk)"
  by (simp add: buildPermitActions_def Let_def)

lemma bpa_noop:
  "ea_type (rq_action req) = ''noop'' \<Longrightarrow>
   buildPermitActions rt req ctx clk = (Inr [add (rq_nonce req) Noop 0], req, clk)"
  by (simp add: buildPermitActions_def Let_def)

lemma bpa_nonmutating:
  assumes "ea_type (rq_action req) \<noteq> ''order''" "ea_type (rq_action req) \<noteq> ''batchOrder''"
    "ea_type (rq_action req) \<noteq> ''modify''" "ea_type (rq_action req) \<noteq> ''modifyBatch''"
  shows "\<exists>r. buildPermitActions rt req ctx clk = (r, req, clk)"
proof -
  consider (c) "ea_type (rq_action req) = ''cancel''"
    | (cc) "ea_type (rq_action req) = ''cancelByCloid''"
    | (u) "ea_type (rq_action req) = ''updateLeverage''"
    | (f) "ea_type (rq_action req) = ''faucet''"
    | (w) "ea_type (rq_action req) = ''withdraw''"
    | (n) "ea_type (rq_action req) = ''noop''"
    | (other) "ea_type (rq_action req) \<notin> supported_types"
    using assms unfolding supported_types_def by blast
  then show ?thesis
  proof cases
    case c then show ?thesis by (simp add: bpa_cancel)
  next
    case cc then show ?thesis by (simp add: bpa_cancelByCloid)
  next
    case u then show ?thesis by (simp add: bpa_updateLeverage)
  next
    case f then show ?thesis by (simp add: bpa_faucet)
  next
    case w then show ?thesis by (cases "ea_amount (rq_action req)") (simp_all add: bpa_withdraw)
  next
    case n then show ?thesis by (simp add: bpa_noop)
  next
    case other then show ?thesis by (simp add: bpa_other)
  qed
qed

lemma bpa_unchanged:
  "ea_type (rq_action req) \<noteq> ''order'' \<Longrightarrow> ea_type (rq_action req) \<noteq> ''batchOrder'' \<Longrightarrow>
   ea_type (rq_action req) \<noteq> ''modify'' \<Longrightarrow> ea_type (rq_action req) \<noteq> ''modifyBatch'' \<Longrightarrow>
   buildPermitActions rt req ctx clk = (r, req', clk') \<Longrightarrow> req' = req"
  using bpa_nonmutating [of req rt ctx clk] by auto

lemma bpa_frame:
  assumes "buildPermitActions rt req ctx clk = (r, req', clk')"
  shows "erase_request req' = erase_request req"
proof -
  consider (o) "ea_type (rq_action req) = ''order''"
    | (b) "ea_type (rq_action req) = ''batchOrder''"
    | (m) "ea_type (rq_action req) = ''modify''"
    | (mb) "ea_type (rq_action req) = ''modifyBatch''"
    | (other) "ea_type (rq_action req) \<noteq> ''order''" "ea_type (rq_action req) \<noteq> ''batchOrder''"
        "ea_type (rq_action req) \<noteq> ''modify''" "ea_type (rq_action req) \<noteq> ''modifyBatch''"
    by blast
  then show ?thesis
  proof cases
    case o
    show ?thesis
      using assms
      by (auto simp: bpa_order [OF o] erase_request_def split: option.splits prod.splits
          dest: order_case_frame)
  next
    case b
    show ?thesis
      using assms
      by (auto simp: bpa_batchOrder [OF b] erase_request_def split: option.splits prod.splits
          dest: batchOrder_each_frame)
  next
    case m
    show ?thesis
      using assms
      by (auto simp: bpa_modify [OF m] erase_request_def
            split: option.splits prod.splits sum.splits dest: buildModifyAction_frame_order)
  next
    case mb
    show ?thesis
      using assms
      by (auto simp: bpa_modifyBatch [OF mb] erase_request_def split: option.splits prod.splits
          dest: modifyBatch_each_frame)
  next
    case other
    from bpa_unchanged [OF other assms] show ?thesis by simp
  qed
qed

lemma build_request:
  "buildPermitEnvelopesFromExchangeRequest rt req ctx clk = (r, req', clk') \<Longrightarrow>
   \<exists>r1 c1. buildPermitActions rt req ctx clk = (r1, req', c1)"
  by (auto simp: buildPermitEnvelopesFromExchangeRequest_def split: prod.splits sum.splits)

lemma ensureClientId_numeric:
  "numeric_c order' \<Longrightarrow> \<exists>n. ensureClientId order' clk = (Inr n, order', clk)"
  by (auto simp: numeric_c_def ensure_numeric split: option.splits)

lemma buildPlaceAction_numeric:
  "numeric_c order' \<Longrightarrow> \<exists>r. buildPlaceAction order' market clk = (r, order', clk)"
  using ensureClientId_numeric [of order' clk]
  by (auto simp: buildPlaceAction_def)

lemma buildModifyAction_numeric:
  "numeric_c (mr_order modify) \<Longrightarrow>
   \<exists>r. buildModifyAction modify market clk = (r, modify, clk)"
  using ensureClientId_numeric [of "mr_order modify" clk]
  by (auto simp: buildModifyAction_def)

lemma order_case_numeric:
  "numeric_c order' \<Longrightarrow> \<exists>r. order_case ctx N order' clk = (r, order', clk)"
proof -
  assume n: "numeric_c order'"
  show ?thesis
  proof (cases "resolveMarket (or_a order') ctx")
    case (Inl e)
    then show ?thesis by (simp add: order_case_def)
  next
    case (Inr market)
    from buildPlaceAction_numeric [OF n, of market clk] obtain r where
      "buildPlaceAction order' market clk = (r, order', clk)" by blast
    then show ?thesis using Inr by (simp add: order_case_def)
  qed
qed

lemma batchOrder_each_numeric:
  "list_all numeric_c xs \<Longrightarrow> \<exists>r. batchOrder_each ctx N idx xs clk = (r, xs, clk)"
proof (induction xs arbitrary: idx)
  case Nil then show ?case by simp
next
  case (Cons x xs)
  then have n: "numeric_c x" and ih: "\<exists>r. batchOrder_each ctx N (Suc idx) xs clk = (r, xs, clk)"
    by simp_all
  show ?case
  proof (cases "resolveMarket (or_a x) ctx")
    case (Inl e)
    then show ?thesis by simp
  next
    case (Inr market)
    from buildPlaceAction_numeric [OF n, of market clk] obtain r where
      p: "buildPlaceAction x market clk = (r, x, clk)" by blast
    from ih obtain r' where "batchOrder_each ctx N (Suc idx) xs clk = (r', xs, clk)" by blast
    then show ?thesis using Inr p by (cases r) simp_all
  qed
qed

lemma modifyBatch_each_numeric:
  "list_all (\<lambda>m. numeric_c (mr_order m)) xs \<Longrightarrow>
   \<exists>r. modifyBatch_each ctx N idx xs clk = (r, xs, clk)"
proof (induction xs arbitrary: idx)
  case Nil then show ?case by simp
next
  case (Cons x xs)
  then have n: "numeric_c (mr_order x)"
    and ih: "\<exists>r. modifyBatch_each ctx N (Suc idx) xs clk = (r, xs, clk)"
    by simp_all
  show ?case
  proof (cases "resolveMarket (or_a (mr_order x)) ctx")
    case (Inl e)
    then show ?thesis by simp
  next
    case (Inr market)
    from buildModifyAction_numeric [OF n, of market clk] obtain r where
      p: "buildModifyAction x market clk = (r, x, clk)" by blast
    from ih obtain r' where "modifyBatch_each ctx N (Suc idx) xs clk = (r', xs, clk)" by blast
    then show ?thesis using Inr p by (cases r) simp_all
  qed
qed

lemma bpa_numeric:
  assumes "all_numeric req"
  shows "\<exists>r. buildPermitActions rt req ctx clk = (r, req, clk)"
proof -
  consider (o) "ea_type (rq_action req) = ''order''"
    | (b) "ea_type (rq_action req) = ''batchOrder''"
    | (m) "ea_type (rq_action req) = ''modify''"
    | (mb) "ea_type (rq_action req) = ''modifyBatch''"
    | (other) "ea_type (rq_action req) \<noteq> ''order''" "ea_type (rq_action req) \<noteq> ''batchOrder''"
        "ea_type (rq_action req) \<noteq> ''modify''" "ea_type (rq_action req) \<noteq> ''modifyBatch''"
    by blast
  then show ?thesis
  proof cases
    case o
    show ?thesis
    proof (cases "ea_order (rq_action req)")
      case None
      show ?thesis
      proof (cases "ea_self (rq_action req)")
        case n2: None
        then show ?thesis using None by (simp add: bpa_order [OF o])
      next
        case (Some order')
        then have "numeric_c order'" using assms by (simp add: all_numeric_def)
        from order_case_numeric [OF this, of ctx "rq_nonce req" clk] obtain r where
          "order_case ctx (rq_nonce req) order' clk = (r, order', clk)" by blast
        moreover have "req\<lparr>rq_action := (rq_action req)\<lparr>ea_self := Some order'\<rparr>\<rparr> = req"
          using Some by simp
        ultimately show ?thesis using None Some by (simp add: bpa_order [OF o])
      qed
    next
      case (Some order')
      then have "numeric_c order'" using assms by (simp add: all_numeric_def)
      from order_case_numeric [OF this, of ctx "rq_nonce req" clk] obtain r where
        "order_case ctx (rq_nonce req) order' clk = (r, order', clk)" by blast
      moreover have "req\<lparr>rq_action := (rq_action req)\<lparr>ea_order := Some order'\<rparr>\<rparr> = req"
        using Some by simp
      ultimately show ?thesis using Some by (simp add: bpa_order [OF o])
    qed
  next
    case b
    show ?thesis
    proof (cases "ea_orders (rq_action req)")
      case None
      then show ?thesis by (simp add: bpa_batchOrder [OF b])
    next
      case (Some xs)
      then have "list_all numeric_c xs" using assms by (simp add: all_numeric_def)
      from batchOrder_each_numeric [OF this, of ctx "rq_nonce req" 0 clk] obtain r where
        "batchOrder_each ctx (rq_nonce req) 0 xs clk = (r, xs, clk)" by blast
      moreover have "req\<lparr>rq_action := (rq_action req)\<lparr>ea_orders := Some xs\<rparr>\<rparr> = req"
        using Some by simp
      ultimately show ?thesis using Some by (simp add: bpa_batchOrder [OF b])
    qed
  next
    case m
    show ?thesis
    proof (cases "ea_order (rq_action req)")
      case None
      then show ?thesis by (simp add: bpa_modify [OF m])
    next
      case (Some order')
      then have n: "numeric_c order'" using assms by (simp add: all_numeric_def)
      have e: "req\<lparr>rq_action := (rq_action req)\<lparr>ea_order := Some order'\<rparr>\<rparr> = req"
        using Some by simp
      show ?thesis
      proof (cases "resolveMarket (or_a order') ctx")
        case (Inl err)
        then show ?thesis using Some by (simp add: bpa_modify [OF m])
      next
        case (Inr market)
        let ?md = "\<lparr>mr_oid = (case ea_oid (rq_action req) of None \<Rightarrow> Num 0 | Some v \<Rightarrow> v),
                   mr_order = order'\<rparr>"
        have "numeric_c (mr_order ?md)" using n by simp
        from buildModifyAction_numeric [OF this, of market clk] obtain r where
          "buildModifyAction ?md market clk = (r, ?md, clk)" by blast
        then show ?thesis using Some Inr e by (simp add: bpa_modify [OF m])
      qed
    qed
  next
    case mb
    show ?thesis
    proof (cases "ea_modifies (rq_action req)")
      case None
      then show ?thesis by (simp add: bpa_modifyBatch [OF mb])
    next
      case (Some xs)
      then have "list_all (\<lambda>m. numeric_c (mr_order m)) xs"
        using assms by (simp add: all_numeric_def)
      from modifyBatch_each_numeric [OF this, of ctx "rq_nonce req" 0 clk] obtain r where
        "modifyBatch_each ctx (rq_nonce req) 0 xs clk = (r, xs, clk)" by blast
      moreover have "req\<lparr>rq_action := (rq_action req)\<lparr>ea_modifies := Some xs\<rparr>\<rparr> = req"
        using Some by simp
      ultimately show ?thesis using Some by (simp add: bpa_modifyBatch [OF mb])
    qed
  next
    case other
    then show ?thesis by (rule bpa_nonmutating)
  qed
qed

subsection \<open>The client id the adapter leaves in an order\<close>

lemma digit_chars:
  "list_all (\<lambda>k. is_digit (''0123456789'' ! k) \<and> (of_char (''0123456789'' ! k) :: nat) - 48 = k)
     [0..<10]"
  by code_simp

lemma digit_char:
  "k < 10 \<Longrightarrow> is_digit (''0123456789'' ! k) \<and> (of_char (''0123456789'' ! k) :: nat) - 48 = k"
proof -
  assume "k < 10"
  then have "k \<in> set [0..<10]" by simp
  with digit_chars show ?thesis unfolding list_all_iff by blast
qed

lemma digits_of_digits: "\<forall>c\<in>set (digits_of n). is_digit c"
proof (induction n rule: digits_of.induct)
  case (1 n)
  show ?case
  proof (cases "n < 10")
    case True
    then show ?thesis by (subst digits_of.simps) (simp add: digit_char del: digits_of.simps)
  next
    case False
    have "n mod 10 < 10" by simp
    then have "is_digit (''0123456789'' ! (n mod 10))" using digit_char by blast
    then show ?thesis using False 1 by (subst digits_of.simps) (simp del: digits_of.simps)
  qed
qed

lemma dec_val_snoc: "dec_val (s @ [c]) = 10 * dec_val s + (of_char c - 48)"
  by (simp add: dec_val_def)

lemma dec_val_digits_of: "dec_val (digits_of n) = n"
proof (induction n rule: digits_of.induct)
  case (1 n)
  show ?case
  proof (cases "n < 10")
    case True
    then have "digits_of n = [''0123456789'' ! n]"
      by (subst digits_of.simps) (simp del: digits_of.simps)
    then show ?thesis using digit_char [OF True] by (simp add: dec_val_def del: digits_of.simps)
  next
    case False
    have m: "n mod 10 < 10" by simp
    have "digits_of n = digits_of (n div 10) @ [''0123456789'' ! (n mod 10)]"
      using False by (subst digits_of.simps) (simp del: digits_of.simps)
    then have "dec_val (digits_of n) = 10 * (n div 10) + n mod 10"
      using 1 [OF False] digit_char [OF m] by (simp only: dec_val_snoc)
    then show ?thesis by simp
  qed
qed

lemma BigInt_str_toString: "BigInt_str (toString n) = Some n"
proof (cases "n < 0")
  case False
  then show ?thesis
    using BigInt_str_digits [OF digits_of_nonempty digits_of_digits, of "nat n"]
    by (simp add: toString_def dec_val_digits_of del: digits_of.simps)
next
  case True
  let ?d = "digits_of (nat (- n))"
  have ne: "?d \<noteq> []" by (rule digits_of_nonempty)
  have dg: "\<forall>c\<in>set ?d. is_digit c" by (rule digits_of_digits)
  have "\<not> is_ws (last ?d)" using ne dg digit_not_ws by (meson last_in_set)
  then have t: "trim (CHR ''-'' # ?d) = CHR ''-'' # ?d"
    using ne by (intro trim_id) (simp_all add: is_ws_def del: digits_of.simps)
  have p: "parse_digits 10 ?d = Some (int (nat (- n)))"
    using ne parse_radix_digits [OF dg, of 0]
    by (simp add: parse_digits_def dec_val_digits_of [unfolded dec_val_def] del: digits_of.simps)
  show ?thesis using True
    by (simp add: toString_def BigInt_str_def Let_def t p del: digits_of.simps)
qed

lemma toString_nonempty: "toString n \<noteq> []"
  by (simp add: toString_def digits_of_nonempty del: digits_of.simps)

lemma ensureClientId_written:
  assumes e: "ensureClientId order' clk = (Inr n, order'', clk')"
  shows "\<exists>c. or_c order'' = Some c \<and> c \<noteq> [] \<and> BigInt_str c = Some n"
proof (cases "or_c order' = None \<or> or_c order' = Some []")
  case True
  then show ?thesis
    using e
    by (auto simp: ensureClientId_def Date_now_def parseClientId_def BigInt_str_toString
          toString_nonempty simp del: digits_of.simps)
next
  case False
  then obtain c where c: "or_c order' = Some c" "c \<noteq> []" by auto
  show ?thesis
  proof (cases "BigInt_str c")
    case (Some k)
    then show ?thesis using e c by (auto simp: ensureClientId_def parseClientId_def)
  next
    case None
    then show ?thesis using e c
      by (auto simp: ensureClientId_def parseClientId_def BigInt_str_toString toString_nonempty
          simp del: digits_of.simps split: option.splits)
  qed
qed

lemma ensureClientId_again:
  assumes e: "ensureClientId order' clk = (Inr n, order'', clk')"
  shows "ensureClientId order'' clk2 = (Inr n, order'', clk2)"
proof -
  from ensureClientId_written [OF e] obtain c where
    "or_c order'' = Some c" "c \<noteq> []" "BigInt_str c = Some n" by blast
  then show ?thesis by (simp add: ensure_numeric)
qed


lemma erase_c_fields:
  "erase_c order'' = erase_c order' \<Longrightarrow>
   or_a order'' = or_a order' \<and> or_b order'' = or_b order' \<and> or_p order'' = or_p order'
   \<and> or_s order'' = or_s order' \<and> or_r order'' = or_r order' \<and> or_tif order'' = or_tif order'"
  by (cases order', cases order'') (simp add: erase_c_def)

lemma buildPlaceAction_Inr:
  "buildPlaceAction order' market clk = (Inr a, order'', clk') \<Longrightarrow>
   \<exists>n. ensureClientId order' clk = (Inr n, order'', clk')"
  by (auto simp: buildPlaceAction_def split: prod.splits dest!: bind_result_Inr)

lemma buildModifyAction_Inr:
  "buildModifyAction modify market clk = (Inr a, modify', clk') \<Longrightarrow>
   \<exists>n order''. ensureClientId (mr_order modify) clk = (Inr n, order'', clk')
     \<and> modify' = modify\<lparr>mr_order := order''\<rparr>"
  by (auto simp: buildModifyAction_def split: prod.splits dest!: bind_result_Inr)

lemma buildPlaceAction_again:
  assumes b: "buildPlaceAction order' market clk = (Inr a, order'', clk')"
  shows "buildPlaceAction order'' market clk2 = (Inr a, order'', clk2)"
proof -
  from buildPlaceAction_Inr [OF b] obtain n where
    e: "ensureClientId order' clk = (Inr n, order'', clk')" by blast
  have e2: "ensureClientId order'' clk2 = (Inr n, order'', clk2)"
    by (rule ensureClientId_again [OF e])
  show ?thesis using b by (simp add: buildPlaceAction_def e e2)
qed

lemma buildModifyAction_again:
  assumes b: "buildModifyAction modify market clk = (Inr a, modify', clk')"
  shows "buildModifyAction modify' market clk2 = (Inr a, modify', clk2)"
proof -
  from buildModifyAction_Inr [OF b] obtain n o2 where
    e: "ensureClientId (mr_order modify) clk = (Inr n, o2, clk')"
    and m: "modify' = modify\<lparr>mr_order := o2\<rparr>" by blast
  have e2: "ensureClientId o2 clk2 = (Inr n, o2, clk2)"
    by (rule ensureClientId_again [OF e])
  show ?thesis using b by (simp add: buildModifyAction_def e e2 m)
qed

lemma batchOrder_each_Cons:
  "batchOrder_each ctx N idx (x # xs) clk = (Inr infos, xs', clk') \<Longrightarrow>
   \<exists>market act x' c1 rest ys.
     resolveMarket (or_a x) ctx = Inr market
     \<and> buildPlaceAction x market clk = (Inr act, x', c1)
     \<and> batchOrder_each ctx N (Suc idx) xs c1 = (Inr rest, ys, clk')
     \<and> infos = add N act idx # rest \<and> xs' = x' # ys"
  by (auto split: sum.splits prod.splits dest!: cons_result_Inr)

lemma modifyBatch_each_Cons:
  "modifyBatch_each ctx N idx (x # xs) clk = (Inr infos, xs', clk') \<Longrightarrow>
   \<exists>market act x' c1 rest ys.
     resolveMarket (or_a (mr_order x)) ctx = Inr market
     \<and> buildModifyAction x market clk = (Inr act, x', c1)
     \<and> modifyBatch_each ctx N (Suc idx) xs c1 = (Inr rest, ys, clk')
     \<and> infos = add N act idx # rest \<and> xs' = x' # ys"
  by (auto split: sum.splits prod.splits dest!: cons_result_Inr)

lemma order_case_Inr:
  "order_case ctx N order' clk = (Inr infos, order'', clk') \<Longrightarrow>
   or_a order' = None \<and> infos = [] \<and> order'' = order' \<and> clk' = clk
   \<or> or_a order' \<noteq> None
     \<and> (\<exists>market act. resolveMarket (or_a order') ctx = Inr market
          \<and> buildPlaceAction order' market clk = (Inr act, order'', clk')
          \<and> infos = [add N act 0])"
  by (auto simp: order_case_def split: if_splits sum.splits prod.splits dest!: bind_result_Inr)

lemma batchOrder_each_again:
  "batchOrder_each ctx N idx xs clk = (Inr infos, xs', clk') \<Longrightarrow>
   batchOrder_each ctx N idx xs' clk2 = (Inr infos, xs', clk2)"
proof (induction xs arbitrary: idx infos xs' clk clk')
  case Nil then show ?case by simp
next
  case (Cons x xs)
  from batchOrder_each_Cons [OF Cons.prems] obtain market act x' c1 rest ys where
    m: "resolveMarket (or_a x) ctx = Inr market"
    and b: "buildPlaceAction x market clk = (Inr act, x', c1)"
    and r: "batchOrder_each ctx N (Suc idx) xs c1 = (Inr rest, ys, clk')"
    and i: "infos = add N act idx # rest" and x: "xs' = x' # ys" by blast
  have a: "or_a x' = or_a x"
    using erase_c_fields [OF buildPlaceAction_frame [OF b]] by simp
  show ?case
    by (simp add: x i a m buildPlaceAction_again [OF b] Cons.IH [OF r] cons_result_def)
qed

lemma modifyBatch_each_again:
  "modifyBatch_each ctx N idx xs clk = (Inr infos, xs', clk') \<Longrightarrow>
   modifyBatch_each ctx N idx xs' clk2 = (Inr infos, xs', clk2)"
proof (induction xs arbitrary: idx infos xs' clk clk')
  case Nil then show ?case by simp
next
  case (Cons x xs)
  from modifyBatch_each_Cons [OF Cons.prems] obtain market act x' c1 rest ys where
    m: "resolveMarket (or_a (mr_order x)) ctx = Inr market"
    and b: "buildModifyAction x market clk = (Inr act, x', c1)"
    and r: "modifyBatch_each ctx N (Suc idx) xs c1 = (Inr rest, ys, clk')"
    and i: "infos = add N act idx # rest" and x: "xs' = x' # ys" by blast
  have a: "or_a (mr_order x') = or_a (mr_order x)"
    using erase_c_fields [OF buildModifyAction_frame_order [OF b]] by simp
  show ?case
    by (simp add: x i a m buildModifyAction_again [OF b] Cons.IH [OF r] cons_result_def)
qed

lemma order_case_again:
  assumes o: "order_case ctx N order' clk = (Inr infos, order'', clk')"
  shows "order_case ctx N order'' clk2 = (Inr infos, order'', clk2)"
proof (cases "or_a order' = None")
  case True
  then show ?thesis using order_case_Inr [OF o] by (auto simp: order_case_def)
next
  case False
  with order_case_Inr [OF o] obtain market act where
    m: "resolveMarket (or_a order') ctx = Inr market"
    and b: "buildPlaceAction order' market clk = (Inr act, order'', clk')"
    and i: "infos = [add N act 0]" by auto
  have a: "or_a order'' = or_a order'"
    using erase_c_fields [OF buildPlaceAction_frame [OF b]] by simp
  show ?thesis
    using False
    by (simp add: order_case_def a m i buildPlaceAction_again [OF b] bind_result_def)
qed

lemma bpa_clock_free:
  assumes "ea_type (rq_action req) \<noteq> ''order''" "ea_type (rq_action req) \<noteq> ''batchOrder''"
    "ea_type (rq_action req) \<noteq> ''modify''" "ea_type (rq_action req) \<noteq> ''modifyBatch''"
  shows "fst (buildPermitActions rt req ctx clk2) = fst (buildPermitActions rt req ctx clk)"
proof -
  consider (c) "ea_type (rq_action req) = ''cancel''"
    | (cc) "ea_type (rq_action req) = ''cancelByCloid''"
    | (u) "ea_type (rq_action req) = ''updateLeverage''"
    | (f) "ea_type (rq_action req) = ''faucet''"
    | (w) "ea_type (rq_action req) = ''withdraw''"
    | (n) "ea_type (rq_action req) = ''noop''"
    | (other) "ea_type (rq_action req) \<notin> supported_types"
    using assms unfolding supported_types_def by blast
  then show ?thesis
  proof cases
    case c then show ?thesis by (simp add: bpa_cancel)
  next
    case cc then show ?thesis by (simp add: bpa_cancelByCloid)
  next
    case u then show ?thesis by (simp add: bpa_updateLeverage)
  next
    case f then show ?thesis by (simp add: bpa_faucet)
  next
    case w then show ?thesis by (cases "ea_amount (rq_action req)") (simp_all add: bpa_withdraw)
  next
    case n then show ?thesis by (simp add: bpa_noop)
  next
    case other then show ?thesis by (simp add: bpa_other)
  qed
qed

lemma bpa_again:
  assumes a: "buildPermitActions rt req ctx clk = (Inr infos, req', c1)"
  shows "buildPermitActions rt req' ctx clk2 = (Inr infos, req', clk2)"
proof -
  consider (o) "ea_type (rq_action req) = ''order''"
    | (b) "ea_type (rq_action req) = ''batchOrder''"
    | (m) "ea_type (rq_action req) = ''modify''"
    | (mb) "ea_type (rq_action req) = ''modifyBatch''"
    | (other) "ea_type (rq_action req) \<noteq> ''order''" "ea_type (rq_action req) \<noteq> ''batchOrder''"
        "ea_type (rq_action req) \<noteq> ''modify''" "ea_type (rq_action req) \<noteq> ''modifyBatch''"
    by blast
  then show ?thesis
  proof cases
    case o
    show ?thesis
    proof (cases "ea_order (rq_action req)")
      case None
      show ?thesis
      proof (cases "ea_self (rq_action req)")
        case n2: None
        then show ?thesis using a None o by (simp add: bpa_order)
      next
        case (Some order')
        from a have "\<exists>order''. order_case ctx (rq_nonce req) order' clk = (Inr infos, order'', c1)
            \<and> req' = req\<lparr>rq_action := (rq_action req)\<lparr>ea_self := Some order''\<rparr>\<rparr>"
          by (auto simp: bpa_order [OF o] None Some split: prod.splits)
        then obtain order'' where
          oc: "order_case ctx (rq_nonce req) order' clk = (Inr infos, order'', c1)"
          and r: "req' = req\<lparr>rq_action := (rq_action req)\<lparr>ea_self := Some order''\<rparr>\<rparr>" by blast
        have t: "ea_type (rq_action req') = ''order''" using o r by simp
        show ?thesis
          by (simp only: bpa_order [OF t])
             (simp add: r None order_case_again [OF oc])
      qed
    next
      case (Some order')
      from a have "\<exists>order''. order_case ctx (rq_nonce req) order' clk = (Inr infos, order'', c1)
          \<and> req' = req\<lparr>rq_action := (rq_action req)\<lparr>ea_order := Some order''\<rparr>\<rparr>"
        by (auto simp: bpa_order [OF o] Some split: prod.splits)
      then obtain order'' where
        oc: "order_case ctx (rq_nonce req) order' clk = (Inr infos, order'', c1)"
        and r: "req' = req\<lparr>rq_action := (rq_action req)\<lparr>ea_order := Some order''\<rparr>\<rparr>" by blast
      have t: "ea_type (rq_action req') = ''order''" using o r by simp
      show ?thesis
        by (simp only: bpa_order [OF t])
           (simp add: r order_case_again [OF oc])
    qed
  next
    case b
    show ?thesis
    proof (cases "ea_orders (rq_action req)")
      case None
      then show ?thesis using a b by (simp add: bpa_batchOrder)
    next
      case (Some xs)
      from a have "\<exists>xs'. batchOrder_each ctx (rq_nonce req) 0 xs clk = (Inr infos, xs', c1)
          \<and> req' = req\<lparr>rq_action := (rq_action req)\<lparr>ea_orders := Some xs'\<rparr>\<rparr>"
        by (auto simp: bpa_batchOrder [OF b] Some split: prod.splits)
      then obtain xs' where
        e: "batchOrder_each ctx (rq_nonce req) 0 xs clk = (Inr infos, xs', c1)"
        and r: "req' = req\<lparr>rq_action := (rq_action req)\<lparr>ea_orders := Some xs'\<rparr>\<rparr>" by blast
      have t: "ea_type (rq_action req') = ''batchOrder''" using b r by simp
      show ?thesis
        by (simp only: bpa_batchOrder [OF t])
           (simp add: r batchOrder_each_again [OF e])
    qed
  next
    case m
    show ?thesis
    proof (cases "ea_order (rq_action req)")
      case None
      then show ?thesis using a m by (simp add: bpa_modify)
    next
      case (Some order')
      let ?md = "\<lparr>mr_oid = (case ea_oid (rq_action req) of None \<Rightarrow> Num 0 | Some v \<Rightarrow> v),
                 mr_order = order'\<rparr>"
      from a have "\<exists>market act modify'. resolveMarket (or_a order') ctx = Inr market
          \<and> buildModifyAction ?md market clk = (Inr act, modify', c1)
          \<and> infos = [add (rq_nonce req) act 0]
          \<and> req' = req\<lparr>rq_action := (rq_action req)\<lparr>ea_order := Some (mr_order modify')\<rparr>\<rparr>"
        by (auto simp: bpa_modify [OF m] Some split: prod.splits sum.splits
            dest!: bind_result_Inr)
      then obtain market act modify' where
        rm: "resolveMarket (or_a order') ctx = Inr market"
        and bm: "buildModifyAction ?md market clk = (Inr act, modify', c1)"
        and i: "infos = [add (rq_nonce req) act 0]"
        and r: "req' = req\<lparr>rq_action := (rq_action req)\<lparr>ea_order := Some (mr_order modify')\<rparr>\<rparr>"
        by blast
      from buildModifyAction_Inr [OF bm] obtain n o2 where
        md: "modify' = ?md\<lparr>mr_order := o2\<rparr>" by blast
      have fa: "or_a (mr_order modify') = or_a order'"
        using erase_c_fields [OF buildModifyAction_frame_order [OF bm]] by simp
      have t: "ea_type (rq_action req') = ''modify''" using m r by simp
      have again: "buildModifyAction modify' market clk2 = (Inr act, modify', clk2)"
        by (rule buildModifyAction_again [OF bm])
      have same: "\<lparr>mr_oid = (case ea_oid (rq_action req) of None \<Rightarrow> Num 0 | Some v \<Rightarrow> v),
                   mr_order = mr_order modify'\<rparr> = modify'"
        by (simp add: md)
      show ?thesis
        by (simp only: bpa_modify [OF t])
           (simp add: r fa rm same again i bind_result_def)
    qed
  next
    case mb
    show ?thesis
    proof (cases "ea_modifies (rq_action req)")
      case None
      then show ?thesis using a mb by (simp add: bpa_modifyBatch)
    next
      case (Some xs)
      from a have "\<exists>xs'. modifyBatch_each ctx (rq_nonce req) 0 xs clk = (Inr infos, xs', c1)
          \<and> req' = req\<lparr>rq_action := (rq_action req)\<lparr>ea_modifies := Some xs'\<rparr>\<rparr>"
        by (auto simp: bpa_modifyBatch [OF mb] Some split: prod.splits)
      then obtain xs' where
        e: "modifyBatch_each ctx (rq_nonce req) 0 xs clk = (Inr infos, xs', c1)"
        and r: "req' = req\<lparr>rq_action := (rq_action req)\<lparr>ea_modifies := Some xs'\<rparr>\<rparr>" by blast
      have t: "ea_type (rq_action req') = ''modifyBatch''" using mb r by simp
      show ?thesis
        by (simp only: bpa_modifyBatch [OF t])
           (simp add: r modifyBatch_each_again [OF e])
    qed
  next
    case other
    from bpa_unchanged [OF other a] have r: "req' = req" .
    from bpa_nonmutating [OF other, of rt ctx clk2] obtain r2 where
      s: "buildPermitActions rt req ctx clk2 = (r2, req, clk2)" by blast
    have "r2 = Inr infos"
      using bpa_clock_free [OF other, of rt ctx clk2 clk] a s by simp
    then show ?thesis using s r by simp
  qed
qed


lemma ensureClientId_still:
  "stl clk = clk \<Longrightarrow> ensureClientId order' clk = (r, order'', clk') \<Longrightarrow> clk' = clk"
  by (auto simp: ensureClientId_def Date_now_def Let_def split: if_splits prod.splits)

lemma buildPlaceAction_still:
  "stl clk = clk \<Longrightarrow> buildPlaceAction order' market clk = (r, order'', clk') \<Longrightarrow> clk' = clk"
  by (auto simp: buildPlaceAction_def split: prod.splits dest: ensureClientId_still)

lemma buildModifyAction_still:
  "stl clk = clk \<Longrightarrow> buildModifyAction modify market clk = (r, modify', clk') \<Longrightarrow> clk' = clk"
  by (auto simp: buildModifyAction_def split: prod.splits dest: ensureClientId_still)

lemma order_case_still:
  "stl clk = clk \<Longrightarrow> order_case ctx N order' clk = (r, order'', clk') \<Longrightarrow> clk' = clk"
  by (auto simp: order_case_def split: sum.splits prod.splits if_splits
      dest: buildPlaceAction_still)

lemma batchOrder_each_still:
  assumes s: "stl clk = clk"
  shows "batchOrder_each ctx N idx xs clk = (r, xs', clk') \<Longrightarrow> clk' = clk"
proof (induction xs arbitrary: idx r xs' clk')
  case Nil then show ?case by simp
next
  case (Cons x xs)
  show ?case
  proof (cases "resolveMarket (or_a x) ctx")
    case (Inl e)
    then show ?thesis using Cons.prems by simp
  next
    case (Inr market)
    obtain r1 x' c1 where b: "buildPlaceAction x market clk = (r1, x', c1)"
      by (rule prod_cases3)
    have c1: "c1 = clk" by (rule buildPlaceAction_still [OF s b])
    show ?thesis
    proof (cases r1)
      case (Inl e)
      then show ?thesis using Cons.prems Inr b c1 by simp
    next
      case r: (Inr act)
      obtain r2 ys c2 where e: "batchOrder_each ctx N (Suc idx) xs clk = (r2, ys, c2)"
        by (rule prod_cases3)
      from Cons.IH [OF e] have "c2 = clk" .
      then show ?thesis using Cons.prems Inr b c1 r e by simp
    qed
  qed
qed

lemma modifyBatch_each_still:
  assumes s: "stl clk = clk"
  shows "modifyBatch_each ctx N idx xs clk = (r, xs', clk') \<Longrightarrow> clk' = clk"
proof (induction xs arbitrary: idx r xs' clk')
  case Nil then show ?case by simp
next
  case (Cons x xs)
  show ?case
  proof (cases "resolveMarket (or_a (mr_order x)) ctx")
    case (Inl e)
    then show ?thesis using Cons.prems by simp
  next
    case (Inr market)
    obtain r1 x' c1 where b: "buildModifyAction x market clk = (r1, x', c1)"
      by (rule prod_cases3)
    have c1: "c1 = clk" by (rule buildModifyAction_still [OF s b])
    show ?thesis
    proof (cases r1)
      case (Inl e)
      then show ?thesis using Cons.prems Inr b c1 by simp
    next
      case r: (Inr act)
      obtain r2 ys c2 where e: "modifyBatch_each ctx N (Suc idx) xs clk = (r2, ys, c2)"
        by (rule prod_cases3)
      from Cons.IH [OF e] have "c2 = clk" .
      then show ?thesis using Cons.prems Inr b c1 r e by simp
    qed
  qed
qed

lemma bpa_still:
  assumes s: "stl clk = clk"
    and a: "buildPermitActions rt req ctx clk = (r, req', c1)"
  shows "c1 = clk"
proof -
  consider (o) "ea_type (rq_action req) = ''order''"
    | (b) "ea_type (rq_action req) = ''batchOrder''"
    | (m) "ea_type (rq_action req) = ''modify''"
    | (mb) "ea_type (rq_action req) = ''modifyBatch''"
    | (other) "ea_type (rq_action req) \<noteq> ''order''" "ea_type (rq_action req) \<noteq> ''batchOrder''"
        "ea_type (rq_action req) \<noteq> ''modify''" "ea_type (rq_action req) \<noteq> ''modifyBatch''"
    by blast
  then show ?thesis
  proof cases
    case o
    show ?thesis
      using a
      by (auto simp: bpa_order [OF o] split: option.splits prod.splits
          dest: order_case_still [OF s])
  next
    case b
    show ?thesis
      using a
      by (auto simp: bpa_batchOrder [OF b] split: option.splits prod.splits
          dest: batchOrder_each_still [OF s])
  next
    case m
    show ?thesis
      using a
      by (auto simp: bpa_modify [OF m] split: option.splits prod.splits sum.splits
          dest: buildModifyAction_still [OF s])
  next
    case mb
    show ?thesis
      using a
      by (auto simp: bpa_modifyBatch [OF mb] split: option.splits prod.splits
          dest: modifyBatch_each_still [OF s])
  next
    case other
    from bpa_nonmutating [OF other, of rt ctx clk] a show ?thesis by auto
  qed
qed

lemma envelopes_map_still:
  "stl clk = clk \<Longrightarrow>
   envelopes_map ctx infos clk = (map (\<lambda>i. envelopeOf ctx i (shd clk)) infos, clk)"
  by (induction infos) (simp_all add: Date_now_def)

lemma envelopes_map_erase_expiry:
  "envelopes_map ctx infos clk = (envs, clk') \<Longrightarrow>
   map erase_expiry envs = map (\<lambda>i. erase_expiry (envelopeOf ctx i 0)) infos"
  by (induction infos arbitrary: clk envs clk')
     (auto simp: Date_now_def envelopeOf_def Let_def erase_expiry_def split: prod.splits)

lemma envelopes_map_actions:
  "envelopes_map ctx infos clk = (envs, clk') \<Longrightarrow> map action envs = map permitAction infos"
  by (induction infos arbitrary: clk envs clk')
     (auto simp: Date_now_def envelopeOf_def Let_def split: prod.splits)

lemma ensure_missing:
  "or_c order' = None \<Longrightarrow>
   ensureClientId order' clk =
     (Inr (shd clk), order'\<lparr>or_c := Some (toString (shd clk))\<rparr>, stl clk)"
  by (simp add: ensureClientId_def Date_now_def parseClientId_def BigInt_str_toString)

lemma order_example_run:
  "buildPermitActions example_runtime
     \<lparr>rq_action = (example_action ''order'')\<lparr>ea_order := Some (example_order None)\<rparr>,
      rq_nonce = 1000\<rparr> example_context clk =
   (Inr [add 1000 (Place 64 (shd clk) 0 21000 (Some 131425000000) IOC False None 0 None) 0],
    \<lparr>rq_action = (example_action ''order'')
       \<lparr>ea_order := Some (example_order (Some (toString (shd clk))))\<rparr>,
     rq_nonce = 1000\<rparr>,
    stl clk)"
proof -
  let ?req = "\<lparr>rq_action = (example_action ''order'')\<lparr>ea_order := Some (example_order None)\<rparr>,
         rq_nonce = 1000\<rparr>"
  have t: "ea_type (rq_action ?req) = ''order''" by (simp add: example_action_def)
  have o: "or_a (example_order c) = Some (Num 0)" for c by (simp add: example_order_def)
  have e: "ensureClientId (example_order None) clk =
      (Inr (shd clk), example_order (Some (toString (shd clk))), stl clk)"
    using ensure_missing [of "example_order None" clk] by (simp add: example_order_def)
  have p: "buildPlaceAction (example_order None) example_market clk =
      (Inr (Place 64 (shd clk) 0 21000 (Some 131425000000) IOC False None 0 None),
       example_order (Some (toString (shd clk))), stl clk)"
    by (simp add: buildPlaceAction_def e)
       (simp add: example_order_def example_market_def fixed_examples bind_result_def
          toTimeInForceValue_def orderTif_def)
  have oc: "order_case example_context 1000 (example_order None) clk =
      (Inr [add 1000 (Place 64 (shd clk) 0 21000 (Some 131425000000) IOC False None 0 None) 0],
       example_order (Some (toString (shd clk))), stl clk)"
    using p by (simp add: order_case_def bind_result_def o resolve_example)
  show ?thesis
    by (simp only: bpa_order [OF t]) (simp add: example_action_def oc)
qed

subsection \<open>Envelopes in input order\<close>

lemma place_of_built:
  assumes m: "resolveMarket (or_a order') ctx = Inr market"
    and b: "buildPlaceAction order' market clk = (Inr a, order'', clk')"
  shows "place_of ctx order'' = Inr a"
proof -
  from buildPlaceAction_Inr [OF b] obtain n where
    e: "ensureClientId order' clk = (Inr n, order'', clk')" by blast
  from ensureClientId_written [OF e] have cid: "client_id order'' = Inr n"
    by (auto simp: client_id_def BigInt_def)
  have fa: "or_a order'' = or_a order'"
    using erase_c_fields [OF buildPlaceAction_frame [OF b]] by simp
  show ?thesis
    using b by (simp add: buildPlaceAction_def e place_of_def fa m cid bind_result_def)
qed

lemma modify_of_built:
  assumes m: "resolveMarket (or_a (mr_order modify)) ctx = Inr market"
    and b: "buildModifyAction modify market clk = (Inr a, modify', clk')"
  shows "modify_of ctx modify' = Inr a"
proof -
  from buildModifyAction_Inr [OF b] obtain n o2 where
    e: "ensureClientId (mr_order modify) clk = (Inr n, o2, clk')"
    and md: "modify' = modify\<lparr>mr_order := o2\<rparr>" by blast
  from ensureClientId_written [OF e] have cid: "client_id o2 = Inr n"
    by (auto simp: client_id_def BigInt_def)
  have fa: "or_a o2 = or_a (mr_order modify)"
    using erase_c_fields [OF ensureClientId_frame [OF e]] by simp
  show ?thesis
    using b by (simp add: buildModifyAction_def e modify_of_def md fa m cid bind_result_def)
qed

lemma batchOrder_each_actions:
  "batchOrder_each ctx N idx xs clk = (Inr infos, xs', clk') \<Longrightarrow>
   map (\<lambda>i. Inr (permitAction i)) infos = map (place_of ctx) xs'"
proof (induction xs arbitrary: idx infos xs' clk clk')
  case Nil then show ?case by simp
next
  case (Cons x xs)
  from batchOrder_each_Cons [OF Cons.prems] obtain market act x' c1 rest ys where
    m: "resolveMarket (or_a x) ctx = Inr market"
    and b: "buildPlaceAction x market clk = (Inr act, x', c1)"
    and r: "batchOrder_each ctx N (Suc idx) xs c1 = (Inr rest, ys, clk')"
    and i: "infos = add N act idx # rest" and x: "xs' = x' # ys" by blast
  show ?case
    by (simp add: x i place_of_built [OF m b] Cons.IH [OF r] add_def)
qed

lemma modifyBatch_each_actions:
  "modifyBatch_each ctx N idx xs clk = (Inr infos, xs', clk') \<Longrightarrow>
   map (\<lambda>i. Inr (permitAction i)) infos = map (modify_of ctx) xs'"
proof (induction xs arbitrary: idx infos xs' clk clk')
  case Nil then show ?case by simp
next
  case (Cons x xs)
  from modifyBatch_each_Cons [OF Cons.prems] obtain market act x' c1 rest ys where
    m: "resolveMarket (or_a (mr_order x)) ctx = Inr market"
    and b: "buildModifyAction x market clk = (Inr act, x', c1)"
    and r: "modifyBatch_each ctx N (Suc idx) xs c1 = (Inr rest, ys, clk')"
    and i: "infos = add N act idx # rest" and x: "xs' = x' # ys" by blast
  show ?case
    by (simp add: x i modify_of_built [OF m b] Cons.IH [OF r] add_def)
qed

lemma cancel_each_actions:
  "cancel_each ctx N idx xs = Inr infos \<Longrightarrow>
   map (\<lambda>i. Inr (permitAction i)) infos = map (cancel_of ctx) xs"
proof (induction xs arbitrary: idx infos)
  case Nil then show ?case by simp
next
  case (Cons x xs)
  from Cons.prems have "\<exists>market orderId rest.
      resolveMarket (cn_a x) ctx = Inr market
      \<and> (case cn_o x of None \<Rightarrow> Inl TypeError | Some v \<Rightarrow> BigInt v) = Inr orderId
      \<and> cancel_each ctx N (Suc idx) xs = Inr rest
      \<and> infos = add N (CancelById (mc_marketId market) orderId) idx # rest"
    by (auto dest!: bind_result_Inr cons_result_Inr)
  then obtain market orderId rest where
    m: "resolveMarket (cn_a x) ctx = Inr market"
    and v: "(case cn_o x of None \<Rightarrow> Inl TypeError | Some v \<Rightarrow> BigInt v) = Inr orderId"
    and r: "cancel_each ctx N (Suc idx) xs = Inr rest"
    and i: "infos = add N (CancelById (mc_marketId market) orderId) idx # rest" by blast
  show ?case
    by (simp add: i cancel_of_def m v bind_result_def Cons.IH [OF r] add_def)
qed

lemma cancelByCloid_each_actions:
  "cancelByCloid_each ctx N idx xs = Inr infos \<Longrightarrow>
   map (\<lambda>i. Inr (permitAction i)) infos = map (cloid_of ctx) xs"
proof (induction xs arbitrary: idx infos)
  case Nil then show ?case by simp
next
  case (Cons x xs)
  from Cons.prems have "\<exists>market clientId rest.
      resolveMarket (cn_asset x) ctx = Inr market
      \<and> (case cn_cloid x of None \<Rightarrow> Inl TypeError | Some s \<Rightarrow> BigInt (Str s)) = Inr clientId
      \<and> cancelByCloid_each ctx N (Suc idx) xs = Inr rest
      \<and> infos = add N (CancelByClientId (mc_marketId market) clientId) idx # rest"
    by (auto dest!: bind_result_Inr cons_result_Inr split: if_splits)
  then obtain market clientId rest where
    m: "resolveMarket (cn_asset x) ctx = Inr market"
    and v: "(case cn_cloid x of None \<Rightarrow> Inl TypeError | Some s \<Rightarrow> BigInt (Str s)) = Inr clientId"
    and r: "cancelByCloid_each ctx N (Suc idx) xs = Inr rest"
    and i: "infos = add N (CancelByClientId (mc_marketId market) clientId) idx # rest" by blast
  show ?case
    by (simp add: i cloid_of_def m v bind_result_def Cons.IH [OF r] add_def)
qed

lemma batch_actions_in_order:
  assumes t: "ea_type (rq_action req) = ''batchOrder'' \<or> ea_type (rq_action req) = ''cancel''
         \<or> ea_type (rq_action req) = ''cancelByCloid'' \<or> ea_type (rq_action req) = ''modifyBatch''"
    and a: "buildPermitActions rt req ctx clk = (Inr infos, req', c1)"
  shows "map (\<lambda>i. Inr (permitAction i)) infos = subitem_actions ctx (rq_action req')"
proof -
  consider (b) "ea_type (rq_action req) = ''batchOrder''"
    | (c) "ea_type (rq_action req) = ''cancel''"
    | (cc) "ea_type (rq_action req) = ''cancelByCloid''"
    | (m) "ea_type (rq_action req) = ''modifyBatch''"
    using t by blast
  then show ?thesis
  proof cases
    case b
    show ?thesis
    proof (cases "ea_orders (rq_action req)")
      case None
      then show ?thesis using a b by (auto simp: bpa_batchOrder subitem_actions_def)
    next
      case (Some xs)
      from a have "\<exists>xs'. batchOrder_each ctx (rq_nonce req) 0 xs clk = (Inr infos, xs', c1)
          \<and> req' = req\<lparr>rq_action := (rq_action req)\<lparr>ea_orders := Some xs'\<rparr>\<rparr>"
        by (auto simp: bpa_batchOrder [OF b] Some split: prod.splits)
      then obtain xs' where
        e: "batchOrder_each ctx (rq_nonce req) 0 xs clk = (Inr infos, xs', c1)"
        and r: "req' = req\<lparr>rq_action := (rq_action req)\<lparr>ea_orders := Some xs'\<rparr>\<rparr>" by blast
      show ?thesis
        using batchOrder_each_actions [OF e] b by (simp add: r subitem_actions_def)
    qed
  next
    case c
    from a have e: "cancel_each ctx (rq_nonce req) 0
        (case ea_cancels (rq_action req) of None \<Rightarrow> [] | Some cs \<Rightarrow> cs) = Inr infos"
      and r: "req' = req"
      by (auto simp: bpa_cancel [OF c])
    show ?thesis
      using cancel_each_actions [OF e] c by (simp add: r subitem_actions_def)
  next
    case cc
    from a have e: "cancelByCloid_each ctx (rq_nonce req) 0
        (case ea_cancels (rq_action req) of None \<Rightarrow> [] | Some cs \<Rightarrow> cs) = Inr infos"
      and r: "req' = req"
      by (auto simp: bpa_cancelByCloid [OF cc])
    show ?thesis
      using cancelByCloid_each_actions [OF e] cc by (simp add: r subitem_actions_def)
  next
    case m
    show ?thesis
    proof (cases "ea_modifies (rq_action req)")
      case None
      then show ?thesis using a m by (auto simp: bpa_modifyBatch subitem_actions_def)
    next
      case (Some xs)
      from a have "\<exists>xs'. modifyBatch_each ctx (rq_nonce req) 0 xs clk = (Inr infos, xs', c1)
          \<and> req' = req\<lparr>rq_action := (rq_action req)\<lparr>ea_modifies := Some xs'\<rparr>\<rparr>"
        by (auto simp: bpa_modifyBatch [OF m] Some split: prod.splits)
      then obtain xs' where
        e: "modifyBatch_each ctx (rq_nonce req) 0 xs clk = (Inr infos, xs', c1)"
        and r: "req' = req\<lparr>rq_action := (rq_action req)\<lparr>ea_modifies := Some xs'\<rparr>\<rparr>" by blast
      show ?thesis
        using modifyBatch_each_actions [OF e] m by (simp add: r subitem_actions_def)
    qed
  qed
qed


lemma place_of_example:
  "BigInt_str c = Some n \<Longrightarrow>
   place_of example_context (example_order (Some c)) =
     Inr (Place 64 n 0 21000 (Some 131425000000) IOC False None 0 None)"
  by (simp add: place_of_def client_id_def)
     (simp add: example_order_def resolve_example example_market_def fixed_examples
        bind_result_def toTimeInForceValue_def orderTif_def BigInt_def)

text \<open>
  Claim C6. For a batch request (\<open>batchOrder\<close>, \<open>cancel\<close>, \<open>cancelByCloid\<close>,
  \<open>modifyBatch\<close>) with base nonce \<open>N\<close> and \<open>k\<close> sub-items,
  \<open>buildPermitEnvelopesFromExchangeRequest\<close> returns when the batch is well formed
  (it throws on an unknown market, an unsupported time-in-force or a number it cannot
  parse), and whenever it returns, it returns \<open>k\<close> envelopes whose nonces are
  \<open>N, N+1, ..., N+k-1\<close>, strictly increasing and pairwise distinct, in input order:
  the action of the \<open>i\<close>-th envelope is the action of the \<open>i\<close>-th sub-item of the
  request the call leaves behind, which is the \<open>i\<close>-th sub-item of the request it
  was given up to the client id written into it, and is that sub-item itself when
  all client ids are integer literals.
\<close>

theorem batch_nonces_sequential:
  assumes "ea_type (rq_action req) = ''batchOrder'' \<or> ea_type (rq_action req) = ''cancel''
         \<or> ea_type (rq_action req) = ''cancelByCloid'' \<or> ea_type (rq_action req) = ''modifyBatch''"
  shows "(well_formed_batch ctx (rq_action req) \<longrightarrow>
            succeeds (fst (buildPermitEnvelopesFromExchangeRequest rt req ctx clk)))
       \<and> (\<forall>envs req' clk'.
            buildPermitEnvelopesFromExchangeRequest rt req ctx clk = (Inr envs, req', clk') \<longrightarrow>
            length envs = subitems (rq_action req)
            \<and> map nonce envs = map (\<lambda>i. rq_nonce req + int i) [0..<subitems (rq_action req)]
            \<and> sorted_wrt (<) (map nonce envs) \<and> distinct (map nonce envs)
            \<and> map (\<lambda>e. Inr (action e)) envs = subitem_actions ctx (rq_action req')
            \<and> erase_request req' = erase_request req
            \<and> (all_numeric req \<longrightarrow> req' = req))"
proof (intro conjI impI allI)
  assume "well_formed_batch ctx (rq_action req)"
  from batch_actions_succeed [OF assms this] obtain infos r1 c1 where
    "buildPermitActions rt req ctx clk = (Inr infos, r1, c1)" by blast
  from build_succeeds [OF this] show
    "succeeds (fst (buildPermitEnvelopesFromExchangeRequest rt req ctx clk))"
    by (auto simp: succeeds_def)
next
  fix envs req' clk'
  assume b: "buildPermitEnvelopesFromExchangeRequest rt req ctx clk = (Inr envs, req', clk')"
  from build_Inr [OF b] obtain infos c1 where
    a: "buildPermitActions rt req ctx clk = (Inr infos, req', c1)"
    and e: "envelopes_map ctx infos c1 = (envs, clk')" by blast
  show n: "map nonce envs = map (\<lambda>i. rq_nonce req + int i) [0..<subitems (rq_action req)]"
    using envelopes_map_nonces [OF e] batch_actions_nonces [OF assms a] by simp
  show "length envs = subitems (rq_action req)"
    using arg_cong [OF n, of length] by simp
  show "sorted_wrt (<) (map nonce envs)"
    unfolding n by (simp add: sorted_wrt_map sorted_wrt_iff_nth_less)
  show "distinct (map nonce envs)"
    unfolding n by (simp add: distinct_map inj_on_def)
  have "map (\<lambda>e. Inr (action e) :: error + PermitAction) envs
      = map (\<lambda>i. Inr (permitAction i)) infos"
    using arg_cong [OF envelopes_map_actions [OF e], of "map Inr"] by (simp add: comp_def)
  then show "map (\<lambda>e. Inr (action e)) envs = subitem_actions ctx (rq_action req')"
    using batch_actions_in_order [OF assms a] by simp
  show "erase_request req' = erase_request req" by (rule bpa_frame [OF a])
  show "req' = req" if "all_numeric req"
    using bpa_numeric [OF that, of rt ctx clk] a by auto
qed

theorem batch_nonces_sequential_witness:
  "\<exists>envs req' clk'.
     buildPermitEnvelopesFromExchangeRequest example_runtime
       \<lparr>rq_action = (example_action ''batchOrder'')
          \<lparr>ea_orders := Some [example_order (Some ''1''), example_order (Some ''2''),
                               example_order (Some ''3'')]\<rparr>,
        rq_nonce = 1000\<rparr>
       example_context (sconst 1700000000000) = (Inr envs, req', clk')
     \<and> map nonce envs = [1000, 1001, 1002]
     \<and> map action envs =
         [Place 64 1 0 21000 (Some 131425000000) IOC False None 0 None,
          Place 64 2 0 21000 (Some 131425000000) IOC False None 0 None,
          Place 64 3 0 21000 (Some 131425000000) IOC False None 0 None]"
proof -
  let ?req = "\<lparr>rq_action = (example_action ''batchOrder'')
          \<lparr>ea_orders := Some [example_order (Some ''1''), example_order (Some ''2''),
                               example_order (Some ''3'')]\<rparr>,
        rq_nonce = 1000\<rparr>"
  let ?b = "buildPermitEnvelopesFromExchangeRequest example_runtime ?req example_context
       (sconst 1700000000000)"
  have t: "ea_type (rq_action ?req) = ''batchOrder''" by (simp add: example_action_def)
  have w: "well_formed_batch example_context (rq_action ?req)"
    by (simp add: well_formed_batch_def example_action_def order_ok_example)
  have an: "all_numeric ?req"
    by (simp add: all_numeric_def example_action_def numeric_c_def example_order_def
          BigInt_str_123)
  note th = batch_nonces_sequential [of ?req example_context example_runtime "sconst 1700000000000"]
  have "succeeds (fst ?b)" using th t w by blast
  then obtain envs req' clk' where b: "?b = (Inr envs, req', clk')"
    by (cases ?b) (auto dest!: succeedsE)
  have n: "map nonce envs = [1000, 1001, 1002]"
    using th t b by (simp add: example_action_def subitems_def upt_rec)
  have r: "req' = ?req" using th t b an by blast
  have "map (\<lambda>e. Inr (action e) :: error + PermitAction) envs
      = subitem_actions example_context (rq_action req')"
    using th t b by blast
  then have "map (\<lambda>e. Inr (action e) :: error + PermitAction) envs =
       [Inr (Place 64 1 0 21000 (Some 131425000000) IOC False None 0 None),
        Inr (Place 64 2 0 21000 (Some 131425000000) IOC False None 0 None),
        Inr (Place 64 3 0 21000 (Some 131425000000) IOC False None 0 None)]"
    by (simp add: r subitem_actions_def example_action_def place_of_example BigInt_str_123)
  then have ac: "map action envs =
       [Place 64 1 0 21000 (Some 131425000000) IOC False None 0 None,
        Place 64 2 0 21000 (Some 131425000000) IOC False None 0 None,
        Place 64 3 0 21000 (Some 131425000000) IOC False None 0 None]"
    by (auto simp: map_eq_Cons_conv)
  show ?thesis
    by (rule exI [of _ envs], rule exI [of _ req'], rule exI [of _ clk']) (simp only: b n ac)
qed

subsection \<open>The request after the call, and a second call\<close>

text \<open>
  Claim C7, as amended. \<open>buildPermitEnvelopesFromExchangeRequest\<close> leaves its request
  argument unchanged except for the client-id field \<open>c\<close> of the orders in it: the
  request it leaves behind and the request it was given are equal once the client ids
  are erased, and a request whose orders all carry a client id that is a non-empty
  integer literal is left exactly as it was. A second call on the request as the first
  call left it, with the same context and any clock, leaves that request as it is and
  returns envelopes that agree with those of the first call in every field except
  \<open>expiresUnix\<close>, which is read from the clock; when the clock shows the same time
  throughout both calls, the two envelope lists are identical.
\<close>

theorem adapter_changes_only_client_ids:
  "erase_request (fst (snd (buildPermitEnvelopesFromExchangeRequest rt req ctx clk))) =
   erase_request req
   \<and> (all_numeric req \<longrightarrow>
        fst (snd (buildPermitEnvelopesFromExchangeRequest rt req ctx clk)) = req)
   \<and> (\<forall>envs req' clk'.
        buildPermitEnvelopesFromExchangeRequest rt req ctx clk = (Inr envs, req', clk') \<longrightarrow>
        (\<forall>clk2. \<exists>envs2 clk2'.
           buildPermitEnvelopesFromExchangeRequest rt req' ctx clk2 = (Inr envs2, req', clk2')
           \<and> map erase_expiry envs2 = map erase_expiry envs)
        \<and> (\<forall>t. clk = sconst t \<longrightarrow>
             buildPermitEnvelopesFromExchangeRequest rt req' ctx (sconst t)
             = (Inr envs, req', sconst t)))"
proof -
  obtain r req' clk' where
    b: "buildPermitEnvelopesFromExchangeRequest rt req ctx clk = (r, req', clk')"
    by (rule prod_cases3)
  from build_request [OF b] obtain r1 c1 where
    a: "buildPermitActions rt req ctx clk = (r1, req', c1)" by blast
  have 1: "erase_request req' = erase_request req" by (rule bpa_frame [OF a])
  have 2: "req' = req" if "all_numeric req"
    using bpa_numeric [OF that, of rt ctx clk] a by auto
  have 3: "\<exists>envs2 clk2'.
      buildPermitEnvelopesFromExchangeRequest rt req' ctx clk2 = (Inr envs2, req', clk2')
      \<and> map erase_expiry envs2 = map erase_expiry envs"
    if r: "r = Inr envs" for envs clk2
  proof -
    from build_Inr [OF b [unfolded r]] obtain infos c2 where
      a1: "buildPermitActions rt req ctx clk = (Inr infos, req', c2)"
      and e1: "envelopes_map ctx infos c2 = (envs, clk')" by blast
    obtain envs2 clk2' where e2: "envelopes_map ctx infos clk2 = (envs2, clk2')"
      by (rule prod.exhaust)
    have "buildPermitEnvelopesFromExchangeRequest rt req' ctx clk2 = (Inr envs2, req', clk2')"
      using build_of_actions [OF bpa_again [OF a1, of clk2]] by (simp add: e2)
    moreover have "map erase_expiry envs2 = map erase_expiry envs"
      using envelopes_map_erase_expiry [OF e1] envelopes_map_erase_expiry [OF e2] by simp
    ultimately show ?thesis by blast
  qed
  have 4: "buildPermitEnvelopesFromExchangeRequest rt req' ctx (sconst t)
      = (Inr envs, req', sconst t)"
    if r: "r = Inr envs" and c: "clk = sconst t" for envs t
  proof -
    have s: "stl clk = clk" by (simp add: c)
    from build_Inr [OF b [unfolded r]] obtain infos c2 where
      a1: "buildPermitActions rt req ctx clk = (Inr infos, req', c2)"
      and e1: "envelopes_map ctx infos c2 = (envs, clk')" by blast
    have c2: "c2 = clk" by (rule bpa_still [OF s a1])
    have e1': "envelopes_map ctx infos clk = (envs, clk')" using e1 by (simp only: c2)
    have "clk' = clk" using e1' envelopes_map_still [OF s, of ctx infos] by (metis snd_conv)
    then have ev: "envelopes_map ctx infos clk = (envs, clk)" using e1' by (simp only:)
    have "buildPermitEnvelopesFromExchangeRequest rt req' ctx clk = (Inr envs, req', clk)"
      using build_of_actions [OF bpa_again [OF a1, of clk]] by (simp add: ev)
    then show ?thesis by (simp only: c)
  qed
  show ?thesis using 1 2 3 4 by (simp add: b)
qed

theorem adapter_changes_only_client_ids_witness:
  "fst (snd (buildPermitEnvelopesFromExchangeRequest example_runtime
       \<lparr>rq_action = (example_action ''batchOrder'')
          \<lparr>ea_orders := Some [example_order (Some ''1''), example_order (Some ''2''),
                               example_order (Some ''3'')]\<rparr>,
        rq_nonce = 1000\<rparr>
       example_context (sconst 1700000000000)))
   = \<lparr>rq_action = (example_action ''batchOrder'')
          \<lparr>ea_orders := Some [example_order (Some ''1''), example_order (Some ''2''),
                               example_order (Some ''3'')]\<rparr>,
        rq_nonce = 1000\<rparr>
   \<and> fst (buildPermitEnvelopesFromExchangeRequest example_runtime
        (fst (snd (buildPermitEnvelopesFromExchangeRequest example_runtime
           \<lparr>rq_action = (example_action ''order'')\<lparr>ea_order := Some (example_order None)\<rparr>,
            rq_nonce = 1000\<rparr>
           example_context (sconst 1700000000000))))
        example_context (sconst 1700000000000))
     = fst (buildPermitEnvelopesFromExchangeRequest example_runtime
           \<lparr>rq_action = (example_action ''order'')\<lparr>ea_order := Some (example_order None)\<rparr>,
            rq_nonce = 1000\<rparr>
           example_context (sconst 1700000000000))"
proof -
  let ?req = "\<lparr>rq_action = (example_action ''batchOrder'')
          \<lparr>ea_orders := Some [example_order (Some ''1''), example_order (Some ''2''),
                               example_order (Some ''3'')]\<rparr>,
        rq_nonce = 1000\<rparr>"
  let ?req1 = "\<lparr>rq_action = (example_action ''order'')\<lparr>ea_order := Some (example_order None)\<rparr>,
            rq_nonce = 1000\<rparr>"
  let ?T = "sconst 1700000000000 :: clock"
  have "all_numeric ?req"
    by (simp add: all_numeric_def example_action_def numeric_c_def example_order_def
          BigInt_str_123)
  then have 1: "fst (snd (buildPermitEnvelopesFromExchangeRequest example_runtime ?req
       example_context ?T)) = ?req"
    using adapter_changes_only_client_ids [of example_runtime ?req example_context ?T]
    by blast
  obtain envs req' clk' where
    b: "buildPermitEnvelopesFromExchangeRequest example_runtime ?req1 example_context ?T
        = (Inr envs, req', clk')"
    using build_of_actions [OF order_example_run [of ?T]] by blast
  have "buildPermitEnvelopesFromExchangeRequest example_runtime req' example_context ?T
      = (Inr envs, req', ?T)"
    using adapter_changes_only_client_ids [of example_runtime ?req1 example_context ?T] b by blast
  then have 2: "fst (buildPermitEnvelopesFromExchangeRequest example_runtime
        (fst (snd (buildPermitEnvelopesFromExchangeRequest example_runtime ?req1
           example_context ?T))) example_context ?T)
     = fst (buildPermitEnvelopesFromExchangeRequest example_runtime ?req1 example_context ?T)"
    by (simp add: b)
  show ?thesis using 1 2 by (rule conjI)
qed

text \<open>
  The claim as stated says that the request is left unchanged, every order's \<open>c\<close> in
  particular, and that two calls with the same request, context and clock state produce
  identical envelope lists. On an order without \<open>c\<close>, \<open>ensureClientId\<close> stores the
  clock's milliseconds in it; and with the clock \<open>999, 1000, 1000, ...\<close> the first call
  reads the client id at 999 and the expiry at 1000 (61 seconds), while a second call
  on the same request and the same clock finds the client id and reads the expiry at
  999 (60 seconds).
\<close>

theorem adapter_writes_client_id_counterexample:
  "map_option or_c (ea_order (rq_action (fst (snd
     (buildPermitEnvelopesFromExchangeRequest example_runtime
        \<lparr>rq_action = (example_action ''order'')\<lparr>ea_order := Some (example_order None)\<rparr>,
         rq_nonce = 1000\<rparr>
        example_context (sconst 1700000000000))))))
   = Some (Some ''1700000000000'')
   \<and> map_option or_c (ea_order (rq_action
        \<lparr>rq_action = (example_action ''order'')\<lparr>ea_order := Some (example_order None)\<rparr>,
         rq_nonce = 1000\<rparr>))
     = Some None
   \<and> map_sum id (map expiresUnix)
       (fst (buildPermitEnvelopesFromExchangeRequest example_runtime
          \<lparr>rq_action = (example_action ''order'')\<lparr>ea_order := Some (example_order None)\<rparr>,
           rq_nonce = 1000\<rparr>
          example_context (999 ## sconst 1000)))
     = Inr [61]
   \<and> map_sum id (map expiresUnix)
       (fst (buildPermitEnvelopesFromExchangeRequest example_runtime
          (fst (snd (buildPermitEnvelopesFromExchangeRequest example_runtime
             \<lparr>rq_action = (example_action ''order'')\<lparr>ea_order := Some (example_order None)\<rparr>,
              rq_nonce = 1000\<rparr>
             example_context (999 ## sconst 1000))))
          example_context (999 ## sconst 1000)))
     = Inr [60]"
proof -
  let ?req = "\<lparr>rq_action = (example_action ''order'')\<lparr>ea_order := Some (example_order None)\<rparr>,
         rq_nonce = 1000\<rparr>"
  let ?c = "999 ## sconst 1000 :: clock"
  have x: "cx_expirySeconds example_context = None" by (simp add: example_context_def)
  have 1: "map_option or_c (ea_order (rq_action (fst (snd
     (buildPermitEnvelopesFromExchangeRequest example_runtime ?req example_context
        (sconst 1700000000000)))))) = Some (Some ''1700000000000'')"
    using build_of_actions [OF order_example_run [of "sconst 1700000000000"]]
    by (simp add: example_order_def example_action_def toString_example)
  have 2: "map_option or_c (ea_order (rq_action ?req)) = Some None"
    by (simp add: example_order_def example_action_def)
  note a = order_example_run [of ?c]
  have 3: "map_sum id (map expiresUnix)
       (fst (buildPermitEnvelopesFromExchangeRequest example_runtime ?req example_context ?c))
     = Inr [61]"
    using build_of_actions [OF a]
    by (simp add: Date_now_def envelopeOf_def Let_def x DEFAULT_EXPIRY_def)
  have 4: "map_sum id (map expiresUnix)
       (fst (buildPermitEnvelopesFromExchangeRequest example_runtime
          (fst (snd (buildPermitEnvelopesFromExchangeRequest example_runtime ?req
             example_context ?c))) example_context ?c))
     = Inr [60]"
    using build_of_actions [OF a] build_of_actions [OF bpa_again [OF a, of ?c]]
    by (simp add: Date_now_def envelopeOf_def Let_def x DEFAULT_EXPIRY_def)
  show ?thesis using 1 2 3 4 by (intro conjI)
qed

section \<open>The signer\<close>

subsection \<open>The verification instruction\<close>

lemma alloc_first: "(Buffer_alloc (16 + 64 + 32 + n))[0 := 1] = 1 # replicate (111 + n) 0"
proof -
  have "16 + 64 + 32 + n = Suc (111 + n)" by simp
  then show ?thesis by (simp only: Buffer_alloc_def replicate_Suc list_update_code)
qed

lemma le_bytes_2_0: "le_bytes 2 0 = [0, 0]"
  by (simp add: numeral_2_eq_2)

lemma createEd25519Instruction_data:
  assumes "length S = 64" "length P = 32" "length M < 65536"
  shows "createEd25519Instruction S P M =
         Inr \<lparr>ix_keys = [], ix_programId = Ed25519Program_programId,
              ix_data = instruction_layout S P M\<rparr>"
  using assms
  unfolding createEd25519Instruction_def Let_def alloc_first
  by (simp add: bind_result_def writeUInt16LE_def buf_set_def buf_write_def instruction_layout_def
        le_bytes_2_0 del: le_bytes.simps)

lemma le_val_2: "n < 65536 \<Longrightarrow> le_val (le_bytes 2 n) = n"
  by (simp add: le_val_le_bytes)

lemma encode_length_bound: "encodePermitEnvelope e = Inr M \<Longrightarrow> length M \<le> 512"
  by (auto simp: encodePermitEnvelope_def split: sum.splits if_splits)

lemma sign_result:
  assumes "encodePermitEnvelope e = Inr M" "length (kp_publicKey kp) = 32"
    and "length (ed_sign M (kp_secretKey kp)) = 64"
  shows "sign ed_sign e kp =
         Inr \<lparr>envelope = e, signature = ed_sign M (kp_secretKey kp),
              publicKey = kp_publicKey kp,
              verifyInstruction =
                \<lparr>ix_keys = [], ix_programId = Ed25519Program_programId,
                 ix_data = instruction_layout (ed_sign M (kp_secretKey kp)) (kp_publicKey kp) M\<rparr>\<rparr>"
proof -
  have "length M < 65536" using encode_length_bound [OF assms(1)] by simp
  from createEd25519Instruction_data [OF assms(3) assms(2) this] show ?thesis
    by (simp add: sign_def generatePermitSignature_def bind_result_def assms(1))
qed

text \<open>
  Claim C3. For every 64-byte signature \<open>S\<close>, 32-byte public key \<open>P\<close> and message
  \<open>M\<close> of \<open>n\<close> bytes, with \<open>n\<close> in the range of the 16-bit length field, the
  instruction data has length \<open>112 + n\<close>, its byte 0 is 1, its bytes at offset 16 are
  \<open>S\<close>, at offset 80 \<open>P\<close>, at offset 112 \<open>M\<close>, and its header fields are
  \<open>signatureOffset = 16\<close>, \<open>pubkeyOffset = 80\<close>, \<open>messageOffset = 112\<close>,
  \<open>messageLength = n\<close> and the three instruction indices 0. This is the instruction
  \<open>sign\<close> builds: when \<open>M\<close> is the encoding of the envelope (at most 512 bytes),
  \<open>P\<close> the keypair's public key and \<open>S\<close> the signature of \<open>M\<close>, the permit's
  \<open>verifyInstruction\<close> is this instruction.
\<close>

theorem verification_instruction_layout:
  assumes "length S = 64" "length P = 32" "length M < 65536"
  shows "\<exists>ix. createEd25519Instruction S P M = Inr ix
       \<and> length (ix_data ix) = 112 + length M
       \<and> ix_data ix ! 0 = 1
       \<and> take 64 (drop 16 (ix_data ix)) = S
       \<and> take 32 (drop 80 (ix_data ix)) = P
       \<and> drop 112 (ix_data ix) = M
       \<and> u16_at 1 (ix_data ix) = 16
       \<and> u16_at 3 (ix_data ix) = 0
       \<and> u16_at 5 (ix_data ix) = 80
       \<and> u16_at 7 (ix_data ix) = 0
       \<and> u16_at 9 (ix_data ix) = 112
       \<and> u16_at 11 (ix_data ix) = length M
       \<and> u16_at 13 (ix_data ix) = 0
       \<and> (\<forall>ed_sign e kp.
             encodePermitEnvelope e = Inr M \<and> kp_publicKey kp = P
             \<and> ed_sign M (kp_secretKey kp) = S
             \<longrightarrow> map_sum id verifyInstruction (sign ed_sign e kp) = Inr ix)"
proof -
  let ?d = "instruction_layout S P M"
  let ?ix = "\<lparr>ix_keys = [], ix_programId = Ed25519Program_programId, ix_data = ?d\<rparr>"
  have l: "length ?d = 112 + length M"
    using assms by (simp add: instruction_layout_def)
  have z: "?d ! 0 = 1" by (simp add: instruction_layout_def)
  have s: "take 64 (drop 16 ?d) = S" "take 32 (drop 80 ?d) = P" "drop 112 ?d = M"
    using assms by (simp_all add: instruction_layout_def del: le_bytes.simps)
  have h: "u16_at 1 ?d = le_val (le_bytes 2 16)" "u16_at 3 ?d = le_val (le_bytes 2 0)"
    "u16_at 5 ?d = le_val (le_bytes 2 80)" "u16_at 7 ?d = le_val (le_bytes 2 0)"
    "u16_at 9 ?d = le_val (le_bytes 2 112)" "u16_at 11 ?d = le_val (le_bytes 2 (length M))"
    "u16_at 13 ?d = le_val (le_bytes 2 0)"
    by (simp_all add: u16_at_def instruction_layout_def del: le_bytes.simps)
  have v: "u16_at 1 ?d = 16" "u16_at 3 ?d = 0" "u16_at 5 ?d = 80" "u16_at 7 ?d = 0"
    "u16_at 9 ?d = 112" "u16_at 11 ?d = length M" "u16_at 13 ?d = 0"
    using assms(3) unfolding h by (simp_all add: le_val_2 del: le_bytes.simps)
  have g: "map_sum id verifyInstruction (sign ed_sign e kp) = Inr ?ix"
    if "encodePermitEnvelope e = Inr M" "kp_publicKey kp = P" "ed_sign M (kp_secretKey kp) = S"
    for ed_sign e kp
    using sign_result [of e M kp ed_sign] that assms(1,2) by simp
  have c: "createEd25519Instruction S P M = Inr ?ix"
    by (rule createEd25519Instruction_data [OF assms])
  show ?thesis
    by (rule exI [of _ ?ix]) (use c l z s v g in simp)
qed

theorem verification_instruction_layout_witness:
  "\<exists>ix. createEd25519Instruction (replicate 64 5) (replicate 32 9) [1, 2, 3] = Inr ix
     \<and> length (ix_data ix) = 115 \<and> ix_data ix ! 0 = 1
     \<and> take 64 (drop 16 (ix_data ix)) = replicate 64 5
     \<and> take 32 (drop 80 (ix_data ix)) = replicate 32 9
     \<and> drop 112 (ix_data ix) = [1, 2, 3]
     \<and> u16_at 11 (ix_data ix) = 3"
  using verification_instruction_layout [of "replicate 64 5" "replicate 32 9" "[1, 2, 3]"]
  by auto

subsection \<open>\<open>signWithSession\<close>\<close>

text \<open>
  Claim C9. For every valid envelope \<open>e\<close> and session keypair \<open>k\<close> (a 32-byte public
  key, 64-byte signatures), \<open>signWithSession\<close> returns a signed permit whose envelope
  is \<open>e\<close> with the authorizer replaced by \<open>k\<close>'s public key and every other field
  unchanged, and whose signature is the detached signature, under \<open>k\<close>'s secret key, of
  the encoding of that envelope.
\<close>

theorem signWithSession_replaces_authorizer:
  assumes "valid_envelope e" "length (kp_publicKey sk) = 32"
    and "\<And>m. length (ed_sign m (kp_secretKey sk)) = 64"
  shows "\<exists>sp m. signWithSession ed_sign e sk = Inr sp
       \<and> envelope sp = e\<lparr>authorizer := kp_publicKey sk\<rparr>
       \<and> domain (envelope sp) = domain e \<and> keyType (envelope sp) = keyType e
       \<and> action (envelope sp) = action e \<and> mode (envelope sp) = mode e
       \<and> expiresUnix (envelope sp) = expiresUnix e \<and> maxFeeQuote (envelope sp) = maxFeeQuote e
       \<and> relayer (envelope sp) = relayer e \<and> nonce (envelope sp) = nonce e
       \<and> authorizer (envelope sp) = kp_publicKey sk
       \<and> encodePermitEnvelope (e\<lparr>authorizer := kp_publicKey sk\<rparr>) = Inr m
       \<and> signature sp = ed_sign m (kp_secretKey sk)
       \<and> publicKey sp = kp_publicKey sk"
proof -
  let ?e = "e\<lparr>authorizer := kp_publicKey sk\<rparr>"
  have v: "valid_envelope ?e" using assms(1,2) by (simp add: valid_envelope_def)
  have m: "encodePermitEnvelope ?e = Inr (enc_envelope ?e)"
    by (rule encodePermitEnvelope_flat [OF v])
  from sign_result [of ?e "enc_envelope ?e" sk ed_sign, OF m assms(2) assms(3)] show ?thesis
    by (simp add: signWithSession_def m)
qed

theorem signWithSession_replaces_authorizer_witness:
  "\<exists>sp m.
     signWithSession (\<lambda>m sk. replicate 64 5)
       \<lparr>domain = \<lparr>programId = replicate 32 7, version = 1, cluster = Testnet\<rparr>,
        authorizer = replicate 32 9, keyType = Ed25519, action = Noop, mode = HlWindow 128,
        expiresUnix = 1700000060, maxFeeQuote = 1000000, relayer = None, nonce = 5\<rparr>
       \<lparr>kp_publicKey = replicate 32 3, kp_secretKey = replicate 64 4\<rparr> = Inr sp
     \<and> envelope sp =
       \<lparr>domain = \<lparr>programId = replicate 32 7, version = 1, cluster = Testnet\<rparr>,
        authorizer = replicate 32 3, keyType = Ed25519, action = Noop, mode = HlWindow 128,
        expiresUnix = 1700000060, maxFeeQuote = 1000000, relayer = None, nonce = 5\<rparr>
     \<and> encodePermitEnvelope (envelope sp) = Inr m
     \<and> signature sp = replicate 64 5"
proof -
  let ?e = "\<lparr>domain = \<lparr>programId = replicate 32 7, version = 1, cluster = Testnet\<rparr>,
        authorizer = replicate 32 9, keyType = Ed25519, action = Noop, mode = HlWindow 128,
        expiresUnix = 1700000060, maxFeeQuote = 1000000, relayer = None, nonce = 5\<rparr>"
  let ?k = "\<lparr>kp_publicKey = replicate 32 3, kp_secretKey = replicate 64 4\<rparr>"
  have v: "valid_envelope ?e"
    by (simp add: valid_envelope_def is_u8_def is_u_def is_s_def)
  from signWithSession_replaces_authorizer [of ?e ?k "\<lambda>m sk. replicate 64 5", OF v]
  obtain sp m where
    a: "signWithSession (\<lambda>m sk. replicate 64 5) ?e ?k = Inr sp"
    and b: "envelope sp = ?e\<lparr>authorizer := kp_publicKey ?k\<rparr>"
    and c: "encodePermitEnvelope (?e\<lparr>authorizer := kp_publicKey ?k\<rparr>) = Inr m"
    and d: "signature sp = replicate 64 5"
    by auto
  show ?thesis
    by (rule exI [of _ sp], rule exI [of _ m]) (simp add: a b c [simplified] d)
qed

end
